theory Spec2Isabelle
  imports Main "HOL-Library.Code_Target_Nat"
begin

section \<open>Slide engine and progress-line animator of app.js\<close>

text \<open>
  A shallow embedding of the classes \<open>SlideEngine\<close> and \<open>LineAnimator\<close> of
  \<^verbatim>\<open>src/app.js\<close>. The browser's event loop is explicit: \<open>setTimeout\<close> appends a
  timer (handle, due time, callback) to a queue, \<open>clearTimeout\<close> removes a handle,
  and \<open>fire\<close> runs one callback. The closures of the source are first-order values
  (\<open>action\<close>); a slide element is its index in \<open>this.slides\<close>.

  Not modelled, because no control flow depends on it: CSS styles of the slides, the
  overlay panels and the secondary path, the timeline markers' classes, the navigation
  controls and thumbnails, and count-up (which runs on animation frames). The primary
  path's \<open>d\<close> attribute is kept as the name of the geometry rule that computed it.
  The elements of slide 10 that the animator queries (header, wrapper, rows, seven
  milestones with circle and content box) are all present or all missing: \<open>timelineDom\<close>.
  Times are whole milliseconds.
\<close>

subsection \<open>Data\<close>

datatype trans_type = Fade | SlideT | Zoom | NoneT

text \<open>The engine's \<open>config\<close> and what the code reads from the document.\<close>

record config =
  loop :: bool                  \<comment> \<open>\<open>config.navigation.loop\<close>\<close>
  transType :: trans_type       \<comment> \<open>\<open>config.transitions.type\<close>\<close>
  duration :: nat               \<comment> \<open>\<open>config.transitions.duration\<close>, in ms\<close>
  animationsEnabled :: bool     \<comment> \<open>\<open>config.animations.enabled\<close>\<close>
  staggerDelay :: nat           \<comment> \<open>\<open>config.animations.staggerDelay\<close>\<close>
  animDelays :: "nat list list" \<comment> \<open>per slide, \<open>data-delay\<close> of its \<open>[data-animate]\<close> elements\<close>
  timelineDom :: bool           \<comment> \<open>slide 10 has every element the animator queries\<close>
  splitElems :: bool            \<comment> \<open>both overlays and the secondary path exist\<close>

datatype path_desc =
    PathInitial
  | PathSlide1
  | PathSlide2
  | PathHeaderUnderline nat
  | PathTimeline
  | PathTimelineHeader
  | PathBottomLine
  | PathSlide11 bool
  | PathSlide12 bool
  | PathCenter bool
  | PathOffscreen

text \<open>
  The callbacks handed to \<open>setTimeout\<close>. The three numbers of an engine callback are
  what its closure captured: \<open>prevSlide\<close>, \<open>nextSlide\<close> and \<open>index\<close>.
\<close>

datatype action =
    Reveal nat nat                   \<comment> \<open>\<open>triggerSlideAnimations\<close>: slide, element\<close>
  | Safety nat                       \<comment> \<open>\<open>transition\<close>: safety timeout of a promise\<close>
  | TransEnd nat nat nat             \<comment> \<open>\<open>transition\<close>: promise, safety handle, \<open>fromSlide\<close>\<close>
  | SwoopOnComplete nat nat nat      \<comment> \<open>\<open>animateSwoopTransition\<close>\<close>
  | SwoopCleanup
  | RevSwoopOnComplete nat nat nat   \<comment> \<open>\<open>animateReverseSwoopTransition\<close>\<close>
  | RevSwoopCleanup
  | S1011_t1 nat nat nat             \<comment> \<open>\<open>animateSlide10To11Swoop\<close>\<close>
  | S1011_t2
  | S1011_t3
  | Rev_r1 nat nat nat               \<comment> \<open>\<open>animateSlide12To11Reverse\<close>\<close>
  | Rev_r2
  | Rev_r3
  | Rev_r4
  | Split_t0                         \<comment> \<open>\<open>animateSlide11To12Split\<close>\<close>
  | Split_t2                         \<comment> \<open>\<open>continueSlide12SplitAnimation\<close>\<close>
  | Split_t3
  | Split_t4
  | Split_t5
  | Expansion                        \<comment> \<open>\<open>animateSlide12Expansion\<close>\<close>
  | TimelineDraw nat                 \<comment> \<open>\<open>animateTimelineStepByStep\<close>\<close>
  | TimelineCircle nat
  | TimelineFinal
  | ResizeDone                       \<comment> \<open>\<open>handleResize\<close>\<close>

datatype timer = Timer (tid: nat) (due: nat) (act: action)

record state =
  currentSlide :: nat
  hidden :: "bool list"              \<comment> \<open>class \<open>slide-hidden\<close> of each slide\<close>
  isTransitioning :: bool
  lineAnimator :: bool               \<comment> \<open>\<open>engine.lineAnimator\<close> is set\<close>
  animIn :: "bool list list"         \<comment> \<open>class \<open>animate-in\<close> of each animated element\<close>
  la_currentSlide :: nat             \<comment> \<open>\<open>LineAnimator.currentSlide\<close>\<close>
  isAnimating :: bool
  timelineTimeouts :: "nat list"
  slide12ExpansionTimeout :: "nat option"
  slide12SplitTimeouts :: "nat list"
  slide12ReverseTimeouts :: "nat list"
  slide10To11Timeouts :: "nat list"
  onContentReadyCallback :: "nat option"
  resizeTimeout :: "nat option"
  pathD :: path_desc
  pathTransition :: "nat option"     \<comment> \<open>\<open>None\<close> is \<open>'none'\<close>, \<open>Some d\<close> a transition of d ms\<close>
  now :: nat                         \<comment> \<open>the clock, in ms\<close>
  nextId :: nat                      \<comment> \<open>the next timer handle\<close>
  timers :: "timer list"             \<comment> \<open>pending timers, in the order they were set\<close>
  nextPromise :: nat
  promises :: "(nat \<times> nat) list"     \<comment> \<open>pending promises with the \<open>index\<close> of their \<open>then\<close>\<close>
  events :: "nat list"               \<comment> \<open>\<open>detail.current\<close> of each dispatched \<open>slidechange\<close>\<close>

subsection \<open>Timers\<close>

text \<open>
  The platform reads the delay of \<open>setTimeout\<close> as a signed 32-bit integer: the number
  is reduced modulo \<open>2^32\<close>, and a value of \<open>2^31\<close> or more, which is negative as a
  signed integer, counts as 0. A delay above 2147483647 ms therefore does not wait.
\<close>

definition timerDelay :: "nat \<Rightarrow> nat" where
  "timerDelay d = (let w = d mod 4294967296 in if w < 2147483648 then w else 0)"

text \<open>\<open>setTimeout\<close> returns the handle \<open>nextId s\<close> of the state it is applied to.\<close>

definition setTimeout :: "action \<Rightarrow> nat \<Rightarrow> state \<Rightarrow> state" where
  "setTimeout a d s =
     s\<lparr>timers := timers s @ [Timer (nextId s) (now s + timerDelay d) a],
       nextId := Suc (nextId s)\<rparr>"

definition clearTimeout :: "nat \<Rightarrow> state \<Rightarrow> state" where
  "clearTimeout i s = s\<lparr>timers := filter (\<lambda>t. tid t \<noteq> i) (timers s)\<rparr>"

text \<open>\<open>ids.forEach(id => clearTimeout(id))\<close>\<close>

definition clearTimeouts :: "nat list \<Rightarrow> state \<Rightarrow> state" where
  "clearTimeouts ids s = s\<lparr>timers := filter (\<lambda>t. tid t \<notin> set ids) (timers s)\<rparr>"

subsection \<open>SlideEngine: content reveal, completion, transition\<close>

definition setHidden :: "nat \<Rightarrow> bool \<Rightarrow> state \<Rightarrow> state" where
  "setHidden i b s = s\<lparr>hidden := (hidden s)[i := b]\<rparr>"

definition resetSlideAnimations :: "nat \<Rightarrow> state \<Rightarrow> state" where
  "resetSlideAnimations sl s =
     s\<lparr>animIn := (animIn s)[sl := map (\<lambda>_. False) (animIn s ! sl)]\<rparr>"

text \<open>
  \<open>animatedElements.forEach((el, index) => setTimeout(..., customDelay + index * staggerDelay))\<close>
\<close>

fun revealTimers :: "config \<Rightarrow> nat \<Rightarrow> nat \<Rightarrow> nat list \<Rightarrow> state \<Rightarrow> state" where
  "revealTimers c sl i [] s = s"
| "revealTimers c sl i (customDelay # ds) s =
     revealTimers c sl (Suc i) ds (setTimeout (Reveal sl i) (customDelay + i * staggerDelay c) s)"

definition triggerSlideAnimations :: "config \<Rightarrow> nat \<Rightarrow> state \<Rightarrow> state" where
  "triggerSlideAnimations c sl s =
     (if sl < length (animDelays c) then revealTimers c sl 0 (animDelays c ! sl) s else s)"

definition afterSlideChange :: "config \<Rightarrow> nat \<Rightarrow> bool \<Rightarrow> state \<Rightarrow> state" where
  "afterSlideChange c index animationsAlreadyTriggered s =
     (let s1 = s\<lparr>currentSlide := index\<rparr>;
          s2 = (if animationsEnabled c \<and> \<not> animationsAlreadyTriggered
                then triggerSlideAnimations c index s1 else s1)
      in s2\<lparr>events := events s2 @ [index]\<rparr>)"

text \<open>
  \<open>transition(fromSlide, toSlide, direction).then(() => { isTransitioning = false;
  afterSlideChange(index, true) })\<close>: every caller attaches this continuation (the
  slide 11 to 12 branch also assigns \<open>currentSlide = index\<close>, as \<open>afterSlideChange\<close>
  does), so the promise is stored with \<open>index\<close>.
\<close>

definition transition :: "config \<Rightarrow> nat \<Rightarrow> nat \<Rightarrow> nat \<Rightarrow> state \<Rightarrow> state" where
  "transition c fromSlide toSlide index s =
     (let p = nextPromise s;
          s1 = setHidden toSlide False s;
          safetyTimeout = nextId s1;
          s2 = setTimeout (Safety p) (duration c + 500) s1;
          s3 = setTimeout (TransEnd p safetyTimeout fromSlide) (duration c) s2
      in s3\<lparr>nextPromise := Suc p, promises := promises s3 @ [(p, index)]\<rparr>)"

text \<open>\<open>resolve()\<close>: the continuation runs once; a settled promise ignores it.\<close>

definition resolve :: "config \<Rightarrow> nat \<Rightarrow> state \<Rightarrow> state" where
  "resolve c p s =
     (case map_of (promises s) p of
        None \<Rightarrow> s
      | Some index \<Rightarrow>
          afterSlideChange c index True
            (s\<lparr>promises := filter (\<lambda>q. fst q \<noteq> p) (promises s), isTransitioning := False\<rparr>))"

text \<open>The callback the engine passes as \<open>onComplete\<close> in four of its special branches.\<close>

definition onComplete :: "config \<Rightarrow> nat \<Rightarrow> nat \<Rightarrow> nat \<Rightarrow> state \<Rightarrow> state" where
  "onComplete c prevSlide nextSlide index s =
     transition c prevSlide nextSlide index
       (if animationsEnabled c then triggerSlideAnimations c nextSlide s else s)"

text \<open>The two callbacks of the slide 11 to 12 branch.\<close>

definition onSlideReady :: "config \<Rightarrow> nat \<Rightarrow> nat \<Rightarrow> nat \<Rightarrow> state \<Rightarrow> state" where
  "onSlideReady c prevSlide nextSlide index s =
     (if currentSlide s = index then s\<lparr>isTransitioning := False\<rparr>
      else transition c prevSlide nextSlide index s)"

definition onContentReady :: "config \<Rightarrow> nat \<Rightarrow> state \<Rightarrow> state" where
  "onContentReady c nextSlide s =
     (if animationsEnabled c then triggerSlideAnimations c nextSlide s else s)"

subsection \<open>LineAnimator\<close>

definition setPath :: "path_desc \<Rightarrow> nat option \<Rightarrow> state \<Rightarrow> state" where
  "setPath p tr s = s\<lparr>pathD := p, pathTransition := tr\<rparr>"

definition getSlide10TimelinePath :: "config \<Rightarrow> path_desc" where
  "getSlide10TimelinePath c = (if timelineDom c then PathTimeline else PathHeaderUnderline 9)"

definition getPathForSlide :: "config \<Rightarrow> nat \<Rightarrow> path_desc option" where
  "getPathForSlide c slideIndex =
     (if slideIndex = 0 then Some PathSlide1
      else if slideIndex = 1 then Some PathSlide2
      else if slideIndex \<le> 8 then Some (PathHeaderUnderline slideIndex)
      else if slideIndex = 9 then Some (getSlide10TimelinePath c)
      else if slideIndex = 10 then Some (PathSlide11 True)
      else if slideIndex = 11 then Some (PathSlide12 True)
      else None)"

definition cancelTimelineAnimation :: "state \<Rightarrow> state" where
  "cancelTimelineAnimation s = (clearTimeouts (timelineTimeouts s) s)\<lparr>timelineTimeouts := []\<rparr>"

definition cancelSlide10To11Swoop :: "state \<Rightarrow> state" where
  "cancelSlide10To11Swoop s =
     (clearTimeouts (slide10To11Timeouts s) s)\<lparr>slide10To11Timeouts := [], isAnimating := False\<rparr>"

definition cancelSlide12Expansion :: "state \<Rightarrow> state" where
  "cancelSlide12Expansion s =
     (case slide12ExpansionTimeout s of
        None \<Rightarrow> s
      | Some i \<Rightarrow> (clearTimeout i s)\<lparr>slide12ExpansionTimeout := None\<rparr>)"

text \<open>
  \<open>this.slide12SplitTimeouts.forEach(id => clearTimeout(id)); this.slide12SplitTimeouts = []\<close>,
  and the same for \<open>slide12ReverseTimeouts\<close>.
\<close>

definition clearSplitTimeouts :: "state \<Rightarrow> state" where
  "clearSplitTimeouts s = (clearTimeouts (slide12SplitTimeouts s) s)\<lparr>slide12SplitTimeouts := []\<rparr>"

definition clearReverseTimeouts :: "state \<Rightarrow> state" where
  "clearReverseTimeouts s =
     (clearTimeouts (slide12ReverseTimeouts s) s)\<lparr>slide12ReverseTimeouts := []\<rparr>"

definition cancelSlide12Split :: "state \<Rightarrow> state" where
  "cancelSlide12Split s = (clearReverseTimeouts (clearSplitTimeouts s))\<lparr>isAnimating := False\<rparr>"

definition animateSlide12Expansion :: "state \<Rightarrow> state" where
  "animateSlide12Expansion s =
     (let s1 = cancelSlide12Expansion s;
          s2 = setPath (PathSlide12 False) (Some 800) s1
      in (setTimeout Expansion 1200 s2)\<lparr>slide12ExpansionTimeout := Some (nextId s2)\<rparr>)"

definition pushTimeline :: "action \<Rightarrow> nat \<Rightarrow> state \<Rightarrow> state" where
  "pushTimeline a d s = (setTimeout a d s)\<lparr>timelineTimeouts := timelineTimeouts s @ [nextId s]\<rparr>"

text \<open>
  \<open>drawSegments\<close>: the \<open>circleIndex\<close> of each of the ten segments. The loop schedules a
  draw of 800 ms per segment and, for a segment with a circle, its reveal and a pause of
  300 ms; it returns the final \<open>currentDelay\<close>.
\<close>

definition drawSegments :: "nat option list" where
  "drawSegments = [Some 2, Some 1, Some 0, Some 3, Some 4, Some 5, Some 6, None, None, None]"

fun scheduleSegments :: "nat option list \<Rightarrow> nat \<Rightarrow> nat \<Rightarrow> state \<Rightarrow> nat \<times> state" where
  "scheduleSegments [] i currentDelay s = (currentDelay, s)"
| "scheduleSegments (None # segs) i currentDelay s =
     scheduleSegments segs (Suc i) (currentDelay + 800) (pushTimeline (TimelineDraw i) currentDelay s)"
| "scheduleSegments (Some circleIndex # segs) i currentDelay s =
     scheduleSegments segs (Suc i) (currentDelay + 800 + 300)
       (pushTimeline (TimelineCircle circleIndex) (currentDelay + 800)
          (pushTimeline (TimelineDraw i) currentDelay s))"

definition animateTimelineStepByStep :: "config \<Rightarrow> state \<Rightarrow> state" where
  "animateTimelineStepByStep c s =
     (if \<not> timelineDom c then s\<lparr>pathD := getSlide10TimelinePath c\<rparr>
      else
        let s1 = cancelTimelineAnimation s;
            s2 = setPath PathTimelineHeader None s1;
            (currentDelay, s3) = scheduleSegments drawSegments 0 50 s2
        in pushTimeline TimelineFinal (currentDelay + 100) s3)"

definition updatePath :: "config \<Rightarrow> nat \<Rightarrow> bool \<Rightarrow> state \<Rightarrow> state" where
  "updatePath c slideIndex animate s =
     (let previousSlide = la_currentSlide s;
          s1 = s\<lparr>la_currentSlide := slideIndex\<rparr>;
          s2 = (if slideIndex \<noteq> 9 \<and> (previousSlide = 9 \<or> timelineTimeouts s1 \<noteq> [])
                then cancelTimelineAnimation s1 else s1)
      in case getPathForSlide c slideIndex of
           None \<Rightarrow> s2
         | Some pathData \<Rightarrow>
             let s3 = (if slideIndex = 9 \<and> animate then animateTimelineStepByStep c s2
                       else if slideIndex = 11 \<and> animate then animateSlide12Expansion s2
                       else setPath pathData (if animate then Some 400 else None) s2)
             in if slideIndex \<noteq> 11 then cancelSlide12Split s3 else s3)"

definition push10To11 :: "action \<Rightarrow> nat \<Rightarrow> state \<Rightarrow> state" where
  "push10To11 a d s =
     (setTimeout a d s)\<lparr>slide10To11Timeouts := slide10To11Timeouts s @ [nextId s]\<rparr>"

definition animateSlide10To11Swoop :: "config \<Rightarrow> nat \<Rightarrow> nat \<Rightarrow> nat \<Rightarrow> state \<Rightarrow> state" where
  "animateSlide10To11Swoop c prevSlide nextSlide index s =
     (let s1 = (cancelSlide10To11Swoop s)\<lparr>isAnimating := True\<rparr>;
          s2 = (if timelineDom c then setPath PathBottomLine None s1 else s1);
          s3 = setPath (PathSlide11 False) (Some 600) s2;
          s4 = push10To11 (S1011_t1 prevSlide nextSlide index) 120 s3;
          s5 = push10To11 S1011_t2 (600 + 150) s4
      in push10To11 S1011_t3 (600 + 1200) s5)"

definition pushReverse :: "action \<Rightarrow> nat \<Rightarrow> state \<Rightarrow> state" where
  "pushReverse a d s =
     (setTimeout a d s)\<lparr>slide12ReverseTimeouts := slide12ReverseTimeouts s @ [nextId s]\<rparr>"

definition animateSlide12To11Reverse :: "nat \<Rightarrow> nat \<Rightarrow> nat \<Rightarrow> state \<Rightarrow> state" where
  "animateSlide12To11Reverse prevSlide nextSlide index s =
     (let s1 = cancelSlide12Expansion s;
          s2 = clearSplitTimeouts s1;
          s3 = clearReverseTimeouts s2;
          s4 = setPath PathOffscreen (Some 600) (s3\<lparr>isAnimating := True\<rparr>);
          s5 = pushReverse (Rev_r1 prevSlide nextSlide index) 180 s4;
          s6 = pushReverse Rev_r2 (600 + 100) s5;
          s7 = pushReverse Rev_r3 (600 + 950) s6
      in pushReverse Rev_r4 (600 + 1000) s7)"

definition pushSplit :: "action \<Rightarrow> nat \<Rightarrow> state \<Rightarrow> state" where
  "pushSplit a d s =
     (setTimeout a d s)\<lparr>slide12SplitTimeouts := slide12SplitTimeouts s @ [nextId s]\<rparr>"

definition animateSlide11To12Split :: "config \<Rightarrow> nat \<Rightarrow> nat \<Rightarrow> nat \<Rightarrow> state \<Rightarrow> state" where
  "animateSlide11To12Split c prevSlide nextSlide index s =
     (let s1 = cancelSlide12Expansion (cancelSlide12Split (cancelSlide10To11Swoop s));
          s2 = s1\<lparr>isAnimating := True, onContentReadyCallback := Some nextSlide\<rparr>
      in if \<not> splitElems c
         then onContentReady c nextSlide
                (onSlideReady c prevSlide nextSlide index (s2\<lparr>isAnimating := False\<rparr>))
         else pushSplit Split_t0 50 (onSlideReady c prevSlide nextSlide index s2))"

definition continueSlide12SplitAnimation :: "state \<Rightarrow> state" where
  "continueSlide12SplitAnimation s =
     pushSplit Split_t5 (600 * 2 + 1200)
       (pushSplit Split_t4 (600 * 2 + 850)
          (pushSplit Split_t3 (600 + 800)
             (pushSplit Split_t2 (600 + 150) s)))"

definition animateSwoopTransition :: "nat \<Rightarrow> nat \<Rightarrow> nat \<Rightarrow> state \<Rightarrow> state" where
  "animateSwoopTransition prevSlide nextSlide index s =
     (if isAnimating s then s
      else
        let s1 = setPath (PathHeaderUnderline 2) (Some 600) (s\<lparr>isAnimating := True\<rparr>);
            s2 = s1\<lparr>la_currentSlide := 2\<rparr>;
            s3 = setTimeout (SwoopOnComplete prevSlide nextSlide index) 120 s2
        in setTimeout SwoopCleanup 600 s3)"

definition animateReverseSwoopTransition :: "nat \<Rightarrow> nat \<Rightarrow> nat \<Rightarrow> state \<Rightarrow> state" where
  "animateReverseSwoopTransition prevSlide nextSlide index s =
     (if isAnimating s then s
      else
        let s1 = setPath PathSlide2 (Some 600) (s\<lparr>isAnimating := True\<rparr>);
            s2 = setTimeout (RevSwoopOnComplete prevSlide nextSlide index) 240 s1
        in setTimeout RevSwoopCleanup 600 s2)"

definition handleResize :: "state \<Rightarrow> state" where
  "handleResize s =
     (let s1 = (case resizeTimeout s of None \<Rightarrow> s | Some i \<Rightarrow> clearTimeout i s)
      in (setTimeout ResizeDone 200 s1)\<lparr>resizeTimeout := Some (nextId s1)\<rparr>)"

subsection \<open>SlideEngine.goToSlide\<close>

text \<open>
  The block run when a call arrives during a transition: the line animator's cancel
  operations, then every slide other than \<open>currentSlide\<close> and \<open>index\<close> is hidden.
\<close>

definition cancelInFlight :: "int \<Rightarrow> state \<Rightarrow> state" where
  "cancelInFlight index s =
     (let s1 = (if lineAnimator s
                then cancelSlide12Expansion
                       (cancelSlide12Split (cancelSlide10To11Swoop (cancelTimelineAnimation s)))
                else s)
      in s1\<lparr>hidden := map (\<lambda>(i, h). if i \<noteq> currentSlide s1 \<and> int i \<noteq> index then True else h)
                          (enumerate 0 (hidden s1)),
             isTransitioning := False\<rparr>)"

text \<open>The bounds check; \<open>n\<close> is \<open>slides.length\<close>, positive once \<open>init\<close> has bound the keys.\<close>

definition boundsCheck :: "config \<Rightarrow> nat \<Rightarrow> int \<Rightarrow> int" where
  "boundsCheck c n index =
     (if index < 0 then (if loop c then int n - 1 else 0)
      else if index \<ge> int n then (if loop c then 0 else int n - 1)
      else index)"

text \<open>Lines 265 to 278: reset the animations of the slide being left.\<close>

definition leaveSlide :: "nat \<Rightarrow> state \<Rightarrow> state" where
  "leaveSlide index s =
     (if currentSlide s \<noteq> index
      then let s1 = resetSlideAnimations (currentSlide s) s
           in if currentSlide s = 11 \<and> lineAnimator s
              then cancelSlide12Expansion (cancelSlide12Split s1) else s1
      else s)"

text \<open>The branch of slide 11 to 12 (indices 10 and 11), lines 382 to 445.\<close>

definition splitBranch :: "config \<Rightarrow> nat \<Rightarrow> nat \<Rightarrow> state \<Rightarrow> state" where
  "splitBranch c prevSlide index s =
     (let s1 = cancelSlide12Expansion
                 (cancelSlide12Split (cancelSlide10To11Swoop (cancelTimelineAnimation s)));
          s2 = (if isTransitioning s1
                then (setHidden prevSlide True s1)\<lparr>isTransitioning := False\<rparr> else s1);
          s3 = s2\<lparr>isAnimating := False, isTransitioning := True\<rparr>
      in animateSlide11To12Split c prevSlide index index s3)"

text \<open>The generic transition and the non-animated change, lines 447 to 483.\<close>

definition genericBranch :: "config \<Rightarrow> nat \<Rightarrow> nat \<Rightarrow> bool \<Rightarrow> state \<Rightarrow> state" where
  "genericBranch c prevSlide index animate s =
     (if animate \<and> transType c \<noteq> NoneT
      then
        let s1 = s\<lparr>isTransitioning := True\<rparr>;
            s2 = (if lineAnimator s1 then updatePath c index True s1 else s1);
            s3 = (if animationsEnabled c then triggerSlideAnimations c index s2 else s2);
            s4 = transition c prevSlide index index s3
        in s4\<lparr>currentSlide := index\<rparr>
      else
        let s1 = (if prevSlide \<noteq> index then setHidden prevSlide True s else s);
            s2 = setHidden index False s1;
            s3 = (if lineAnimator s2 then updatePath c index False s2 else s2);
            s4 = afterSlideChange c index False s3
        in s4\<lparr>currentSlide := index\<rparr>)"

text \<open>From line 250 on: \<open>index\<close> is in bounds and the call is not an animated no-op.\<close>

definition navigate :: "config \<Rightarrow> nat \<Rightarrow> bool \<Rightarrow> state \<Rightarrow> state" where
  "navigate c index animate s =
     (let prevSlide = currentSlide s in
      if index = 0 \<and> currentSlide s = 0 \<and> \<not> animate
      then afterSlideChange c 0 False
             (let s1 = setHidden index False s
              in if lineAnimator s1 then updatePath c 0 False s1 else s1)
      else
        let s1 = leaveSlide index s in
        if animate \<and> lineAnimator s1 \<and> currentSlide s1 = 1 \<and> index = 2
        then (animateSwoopTransition prevSlide index index (s1\<lparr>isTransitioning := True\<rparr>))
               \<lparr>currentSlide := index\<rparr>
        else if animate \<and> lineAnimator s1 \<and> currentSlide s1 = 2 \<and> index = 1
        then (animateReverseSwoopTransition prevSlide index index (s1\<lparr>isTransitioning := True\<rparr>))
               \<lparr>currentSlide := index\<rparr>
        else if animate \<and> lineAnimator s1 \<and> currentSlide s1 = 9 \<and> index = 10
        then (animateSlide10To11Swoop c prevSlide index index
                (cancelTimelineAnimation (s1\<lparr>isTransitioning := True\<rparr>)))
               \<lparr>currentSlide := index\<rparr>
        else if animate \<and> lineAnimator s1 \<and> currentSlide s1 = 11 \<and> index = 10
        then
          (animateSlide12To11Reverse prevSlide index index
             (clearSplitTimeouts (s1\<lparr>isTransitioning := True\<rparr>)))\<lparr>currentSlide := index\<rparr>
        else if animate \<and> lineAnimator s1 \<and> currentSlide s1 = 10 \<and> index = 11
        then splitBranch c prevSlide index s1
        else genericBranch c prevSlide index animate s1)"

definition goToSlide :: "config \<Rightarrow> int \<Rightarrow> bool \<Rightarrow> state \<Rightarrow> state" where
  "goToSlide c index animate s =
     (if isTransitioning s \<and> index = int (currentSlide s) then s
      else
        let s1 = (if isTransitioning s then cancelInFlight index s else s);
            index' = nat (boundsCheck c (length (hidden s1)) index)
        in if index' = currentSlide s1 \<and> animate then s1
           else navigate c index' animate s1)"

definition "next" :: "config \<Rightarrow> state \<Rightarrow> state" where
  "next c s = goToSlide c (int (currentSlide s) + 1) True s"

definition prev :: "config \<Rightarrow> state \<Rightarrow> state" where
  "prev c s = goToSlide c (int (currentSlide s) - 1) True s"

definition first :: "config \<Rightarrow> state \<Rightarrow> state" where
  "first c s = goToSlide c 0 True s"

definition last_slide :: "config \<Rightarrow> state \<Rightarrow> state" where
  "last_slide c s = goToSlide c (int (length (hidden s)) - 1) True s"

subsection \<open>The event loop\<close>

text \<open>
  What each timer callback does. The callback of \<open>handleResize\<close> sets the timeline's
  path one animation frame later in the source, at once here.
\<close>

fun runAction :: "config \<Rightarrow> action \<Rightarrow> state \<Rightarrow> state" where
  "runAction c (Reveal sl i) s = s\<lparr>animIn := (animIn s)[sl := (animIn s ! sl)[i := True]]\<rparr>"
| "runAction c (Safety p) s = resolve c p s"
| "runAction c (TransEnd p safetyTimeout fromSlide) s =
     resolve c p (setHidden fromSlide True (clearTimeout safetyTimeout s))"
| "runAction c (SwoopOnComplete a b i) s = onComplete c a b i s"
| "runAction c SwoopCleanup s = s\<lparr>isAnimating := False\<rparr>"
| "runAction c (RevSwoopOnComplete a b i) s = onComplete c a b i s"
| "runAction c RevSwoopCleanup s = s\<lparr>isAnimating := False, la_currentSlide := 1\<rparr>"
| "runAction c (S1011_t1 a b i) s = (if \<not> isAnimating s then s else onComplete c a b i s)"
| "runAction c S1011_t2 s =
     (if \<not> isAnimating s then s else setPath (PathSlide11 True) (Some 1000) s)"
| "runAction c S1011_t3 s = s\<lparr>isAnimating := False, la_currentSlide := 10\<rparr>"
| "runAction c (Rev_r1 a b i) s = (if \<not> isAnimating s then s else onComplete c a b i s)"
| "runAction c Rev_r2 s = s"
| "runAction c Rev_r3 s = (if \<not> isAnimating s then s else setPath (PathSlide11 True) None s)"
| "runAction c Rev_r4 s =
     (if \<not> isAnimating s then s else s\<lparr>isAnimating := False, la_currentSlide := 10\<rparr>)"
| "runAction c Split_t0 s =
     (if \<not> isAnimating s then s
      else continueSlide12SplitAnimation (setPath (PathCenter False) (Some 600) s))"
| "runAction c Split_t2 s =
     (if \<not> isAnimating s then s else setPath (PathCenter True) (Some 600) s)"
| "runAction c Split_t3 s =
     (if \<not> isAnimating s then s else setPath (PathSlide12 True) (Some 600) s)"
| "runAction c Split_t4 s =
     (if \<not> isAnimating s then s
      else case onContentReadyCallback s of
             None \<Rightarrow> s
           | Some nextSlide \<Rightarrow> (onContentReady c nextSlide s)\<lparr>onContentReadyCallback := None\<rparr>)"
| "runAction c Split_t5 s =
     (if \<not> isAnimating s then s else s\<lparr>isAnimating := False, la_currentSlide := 11\<rparr>)"
| "runAction c Expansion s =
     (setPath (PathSlide12 True) (Some 1000) s)\<lparr>slide12ExpansionTimeout := None\<rparr>"
| "runAction c (TimelineDraw i) s = s"
| "runAction c (TimelineCircle i) s = s"
| "runAction c TimelineFinal s = s\<lparr>pathD := getSlide10TimelinePath c\<rparr>"
| "runAction c ResizeDone s =
     (let s1 = cancelTimelineAnimation s
      in if la_currentSlide s1 = 9 then setPath (getSlide10TimelinePath c) None s1
         else updatePath c (la_currentSlide s1) False s1)"

text \<open>A timer fires: it leaves the queue, the clock reaches its due time, its callback runs.\<close>

definition fire :: "config \<Rightarrow> timer \<Rightarrow> state \<Rightarrow> state" where
  "fire c t s =
     runAction c (act t)
       (s\<lparr>timers := filter (\<lambda>u. tid u \<noteq> tid t) (timers s), now := max (now s) (due t)\<rparr>)"

text \<open>The pending timer that fires next: the least due time, the oldest among equals.\<close>

fun earliest :: "timer list \<Rightarrow> timer option" where
  "earliest [] = None"
| "earliest (t # ts) =
     (case earliest ts of
        None \<Rightarrow> Some t
      | Some u \<Rightarrow> if due u < due t then Some u else Some t)"

text \<open>
  \<open>settle\<close> runs the loop until no timer is pending, \<open>advance\<close> until the clock shows
  \<open>T\<close>; both return \<open>None\<close> when the fuel \<open>n\<close> does not suffice.
\<close>

fun settle :: "config \<Rightarrow> nat \<Rightarrow> state \<Rightarrow> state option" where
  "settle c 0 s = (if timers s = [] then Some s else None)"
| "settle c (Suc n) s =
     (case earliest (timers s) of
        None \<Rightarrow> Some s
      | Some t \<Rightarrow> settle c n (fire c t s))"

definition passTime :: "nat \<Rightarrow> state \<Rightarrow> state" where
  "passTime T s = s\<lparr>now := max (now s) T\<rparr>"

fun advance :: "config \<Rightarrow> nat \<Rightarrow> nat \<Rightarrow> state \<Rightarrow> state option" where
  "advance c T 0 s =
     (case earliest (timers s) of
        None \<Rightarrow> Some (passTime T s)
      | Some t \<Rightarrow> if due t \<le> T then None else Some (passTime T s))"
| "advance c T (Suc n) s =
     (case earliest (timers s) of
        None \<Rightarrow> Some (passTime T s)
      | Some t \<Rightarrow> if due t \<le> T then advance c T n (fire c t s) else Some (passTime T s))"

subsection \<open>Start-up\<close>

text \<open>
  The constructor and the loop of \<open>init\<close>: slide 0 visible, the others hidden, every
  animated element hidden. There is one slide per entry of \<open>animDelays\<close>. Timer
  handles are positive.
\<close>

definition initial :: "config \<Rightarrow> state" where
  "initial c =
     \<lparr> currentSlide = 0,
       hidden = map (\<lambda>i. i \<noteq> 0) [0 ..< length (animDelays c)],
       isTransitioning = False,
       lineAnimator = False,
       animIn = map (map (\<lambda>_. False)) (animDelays c),
       la_currentSlide = 0,
       isAnimating = False,
       timelineTimeouts = [],
       slide12ExpansionTimeout = None,
       slide12SplitTimeouts = [],
       slide12ReverseTimeouts = [],
       slide10To11Timeouts = [],
       onContentReadyCallback = None,
       resizeTimeout = None,
       pathD = PathInitial,
       pathTransition = None,
       now = 0,
       nextId = 1,
       timers = [],
       nextPromise = 0,
       promises = [],
       events = [] \<rparr>"

text \<open>
  \<open>SlideEngine.init\<close>: with no slide in the document it returns at once
  (\<open>if (this.slides.length === 0) { ...; return; }\<close>), before \<open>goToSlide(0, false)\<close> and
  before any key, touch or control is bound.
\<close>

definition engineInit :: "config \<Rightarrow> state" where
  "engineInit c =
     (let s = initial c in if length (hidden s) = 0 then s else goToSlide c 0 False s)"

text \<open>
  \<open>DOMContentLoaded\<close>: \<open>engine.init()\<close> runs before the line animator is attached;
  \<open>lineAnimator.init()\<close> then sets the path of slide 0 (two animation frames later in
  the source).
\<close>

definition boot :: "config \<Rightarrow> state" where
  "boot c = updatePath c 0 False ((engineInit c)\<lparr>lineAnimator := True\<rparr>)"

text \<open>The configuration of \<open>DOMContentLoaded\<close>, for twelve slides with two animated
  elements each, the second delayed by 200 ms.\<close>

definition app :: config where
  "app = \<lparr> loop = False, transType = Fade, duration = 400, animationsEnabled = True,
           staggerDelay = 100, animDelays = replicate 12 [0, 200],
           timelineDom = True, splitElems = True \<rparr>"

subsection \<open>Scenarios\<close>

text \<open>\<open>next()\<close> called \<open>k\<close> times, each call after the previous one has settled.\<close>

fun nexts :: "config \<Rightarrow> nat \<Rightarrow> state \<Rightarrow> state option" where
  "nexts c 0 s = settle c 100 s"
| "nexts c (Suc k) s =
     (case nexts c k s of None \<Rightarrow> None | Some s' \<Rightarrow> settle c 100 (next c s'))"

text \<open>
  On the settled first slide: \<open>next()\<close>, and 100 ms later, while that transition of
  400 ms runs, \<open>prev()\<close>; then the timers run out.
\<close>

definition nextThenPrev :: "state option" where
  "nextThenPrev =
     Option.bind (settle app 100 (boot app)) (\<lambda>s0.
     Option.bind (advance app (now s0 + 100) 100 (next app s0)) (\<lambda>s1.
     settle app 100 (prev app s1)))"

text \<open>
  The same two calls, up to the state right after \<open>prev()\<close>: the second request, a
  generic transition from slide 1 back to slide 0.
\<close>

definition prevDuringNext :: "state option" where
  "prevDuringNext =
     Option.bind (settle app 100 (boot app)) (\<lambda>s0.
     map_option (prev app) (advance app (now s0 + 100) 100 (next app s0)))"

text \<open>The state in which that \<open>prev()\<close> arrives, 100 ms into the transition of \<open>next()\<close>.\<close>

definition duringNext :: state where
  "duringNext =
     (case Option.bind (settle app 100 (boot app))
             (\<lambda>s0. advance app (now s0 + 100) 100 (next app s0)) of
        Some s \<Rightarrow> s | None \<Rightarrow> boot app)"

text \<open>On the settled slide of index 10: \<open>goToSlide(11)\<close> twice in a row, then settle.\<close>

definition twiceTo11 :: "state option" where
  "twiceTo11 =
     Option.bind (nexts app 10 (boot app)) (\<lambda>s.
     settle app 100 (goToSlide app 11 True (goToSlide app 11 True s)))"

text \<open>
  On the settled slide of index 1: \<open>next()\<close>, \<open>prev()\<close> and \<open>next()\<close> in a row, before
  any timer fires.
\<close>

definition nextPrev :: "state option" where
  "nextPrev = map_option (\<lambda>s. prev app (next app s)) (nexts app 1 (boot app))"

definition nextPrevNext :: "state option" where
  "nextPrevNext = map_option (next app) nextPrev"

text \<open>On the settled slide of index 1: \<open>next()\<close>, then at once a jump to the timeline slide.\<close>

definition nextThenJump :: "state option" where
  "nextThenJump = map_option (\<lambda>s. goToSlide app 9 True (next app s)) (nexts app 1 (boot app))"

text \<open>
  A jump from the first slide to the timeline slide (index 9), whose step-reveal is then
  running; and a jump to index 9 followed by \<open>goToSlide(10)\<close>, which starts the swoop of
  slide 10 to 11.
\<close>

definition timelineRunning :: state where
  "timelineRunning = goToSlide app 9 True (boot app)"

definition swoop10To11Running :: state where
  "swoop10To11Running = goToSlide app 10 True (goToSlide app 9 False (boot app))"

text \<open>One second after the jump to index 9: the engine is idle, the step-reveal still runs.\<close>

definition timelineIdle :: state where
  "timelineIdle =
     (case advance app 1000 100 timelineRunning of Some s \<Rightarrow> s | None \<Rightarrow> timelineRunning)"

text \<open>
  The configuration of \<open>DOMContentLoaded\<close> with a duration of \<open>2^31 - 300\<close> ms, for which
  the delay \<open>duration + 500\<close> of the safety timer no longer fits in 31 bits.
\<close>

definition longFade :: config where
  "longFade = app\<lparr>duration := 2147483348\<rparr>"

text \<open>With that configuration, a jump from the first slide to the slide of index 3.\<close>

definition longFadeJump :: state where
  "longFadeJump = goToSlide longFade 3 True (boot longFade)"

subsection \<open>Sequences and their timers\<close>

text \<open>The method of \<open>LineAnimator\<close> that schedules a callback.\<close>

datatype sequence =
  Swoop | RevSwoop | Swoop10To11 | ReverseSplit | Split | Expand | Timeline | NoSequence

fun sequenceOf :: "action \<Rightarrow> sequence" where
  "sequenceOf (SwoopOnComplete a b i) = Swoop"
| "sequenceOf SwoopCleanup = Swoop"
| "sequenceOf (RevSwoopOnComplete a b i) = RevSwoop"
| "sequenceOf RevSwoopCleanup = RevSwoop"
| "sequenceOf (S1011_t1 a b i) = Swoop10To11"
| "sequenceOf S1011_t2 = Swoop10To11"
| "sequenceOf S1011_t3 = Swoop10To11"
| "sequenceOf (Rev_r1 a b i) = ReverseSplit"
| "sequenceOf Rev_r2 = ReverseSplit"
| "sequenceOf Rev_r3 = ReverseSplit"
| "sequenceOf Rev_r4 = ReverseSplit"
| "sequenceOf Split_t0 = Split"
| "sequenceOf Split_t2 = Split"
| "sequenceOf Split_t3 = Split"
| "sequenceOf Split_t4 = Split"
| "sequenceOf Split_t5 = Split"
| "sequenceOf Expansion = Expand"
| "sequenceOf (TimelineDraw i) = Timeline"
| "sequenceOf (TimelineCircle i) = Timeline"
| "sequenceOf TimelineFinal = Timeline"
| "sequenceOf (Reveal sl i) = NoSequence"
| "sequenceOf (Safety p) = NoSequence"
| "sequenceOf (TransEnd p t f) = NoSequence"
| "sequenceOf ResizeDone = NoSequence"

text \<open>The pending timers of a sequence.\<close>

definition live :: "sequence \<Rightarrow> state \<Rightarrow> timer list" where
  "live q s = filter (\<lambda>t. sequenceOf (act t) = q) (timers s)"

text \<open>The timers \<open>triggerSlideAnimations\<close> sets for the delays \<open>ds\<close>, from handle \<open>k\<close> at time \<open>t0\<close>.\<close>

fun revealList :: "config \<Rightarrow> nat \<Rightarrow> nat \<Rightarrow> nat \<Rightarrow> nat \<Rightarrow> nat list \<Rightarrow> timer list" where
  "revealList c sl i k t0 [] = []"
| "revealList c sl i k t0 (d # ds) =
     Timer k (t0 + timerDelay (d + i * staggerDelay c)) (Reveal sl i)
       # revealList c sl (Suc i) (Suc k) t0 ds"

subsection \<open>Invariant of the timer bookkeeping\<close>

text \<open>
  Every pending handle was issued before \<open>nextId\<close>, and every pending timer of a
  sequence that records its handles is recorded: in \<open>timelineTimeouts\<close>,
  \<open>slide10To11Timeouts\<close>, \<open>slide12SplitTimeouts\<close>, \<open>slide12ReverseTimeouts\<close> or
  \<open>slide12ExpansionTimeout\<close>.
\<close>

definition tracked :: "state \<Rightarrow> bool" where
  "tracked s =
     (\<forall>t \<in> set (timers s).
        tid t < nextId s \<and>
        (sequenceOf (act t) = Timeline \<longrightarrow> tid t \<in> set (timelineTimeouts s)) \<and>
        (sequenceOf (act t) = Swoop10To11 \<longrightarrow> tid t \<in> set (slide10To11Timeouts s)) \<and>
        (sequenceOf (act t) = Split \<longrightarrow> tid t \<in> set (slide12SplitTimeouts s)) \<and>
        (sequenceOf (act t) = ReverseSplit \<longrightarrow> tid t \<in> set (slide12ReverseTimeouts s)) \<and>
        (sequenceOf (act t) = Expand \<longrightarrow> slide12ExpansionTimeout s = Some (tid t)))"

text \<open>
  The states the page can be in: after start-up, a call of \<open>goToSlide\<close> (all
  navigation goes through it; \<open>init\<close> binds the inputs that call it only when there is
  a slide), the next timer firing, time passing while no timer is due, or a resize event.
\<close>

inductive reachable :: "config \<Rightarrow> state \<Rightarrow> bool" for c :: config where
  start: "reachable c (boot c)"
| call: "reachable c s \<Longrightarrow> hidden s \<noteq> [] \<Longrightarrow> reachable c (goToSlide c index animate s)"
| timer: "reachable c s \<Longrightarrow> earliest (timers s) = Some t \<Longrightarrow> reachable c (fire c t s)"
| wait: "reachable c s \<Longrightarrow> \<forall>t \<in> set (timers s). T < due t \<Longrightarrow> reachable c (passTime T s)"
| resize: "reachable c s \<Longrightarrow> reachable c (handleResize s)"

text \<open>
  From handle \<open>n\<close> on: every pending timer of sequence \<open>q\<close> has a handle issued at or
  after \<open>n\<close>.
\<close>

definition fresh :: "sequence \<Rightarrow> nat \<Rightarrow> state \<Rightarrow> bool" where
  "fresh q n s = (n \<le> nextId s \<and> (\<forall>t \<in> set (timers s). sequenceOf (act t) = q \<longrightarrow> n \<le> tid t))"

subsection \<open>A generic transition in flight\<close>

text \<open>
  Callbacks that touch neither the slides nor a promise and set no timer: content
  reveal, the timeline's drawing steps and the expansion of slide 12.
\<close>

fun inert :: "action \<Rightarrow> bool" where
  "inert (Reveal sl i) = True"
| "inert (TimelineDraw i) = True"
| "inert (TimelineCircle i) = True"
| "inert TimelineFinal = True"
| "inert Expansion = True"
| "inert a = False"

text \<open>
  The generic transition from \<open>fromSlide\<close> to \<open>toSlide\<close> requested at time \<open>t0\<close>, with
  promise \<open>p\<close> and safety handle \<open>sid\<close>: the destination is visible and is the current
  index; beside inert timers only the transition's own two can be pending; and either
  the completion timer is pending with the promise, or the transition has resolved: the
  source is hidden, one \<open>slidechange\<close> was dispatched and neither timer is left.
\<close>

definition genericInFlight ::
  "config \<Rightarrow> nat \<Rightarrow> nat \<Rightarrow> nat \<Rightarrow> nat \<Rightarrow> nat \<Rightarrow> nat list \<Rightarrow> state \<Rightarrow> bool" where
  "genericInFlight c fromSlide toSlide p sid t0 ev0 s =
     (fromSlide < length (hidden s) \<and> toSlide < length (hidden s) \<and> fromSlide \<noteq> toSlide \<and>
      \<not> hidden s ! toSlide \<and> currentSlide s = toSlide \<and>
      (\<forall>t \<in> set (timers s).
         (inert (act t) \<and> tid t < sid) \<or>
         t = Timer sid (t0 + (duration c + 500)) (Safety p) \<or>
         t = Timer (Suc sid) (t0 + duration c) (TransEnd p sid fromSlide)) \<and>
      ((Timer (Suc sid) (t0 + duration c) (TransEnd p sid fromSlide) \<in> set (timers s) \<and>
        promises s = [(p, toSlide)] \<and> events s = ev0)
       \<or>
       (list_all (\<lambda>t. inert (act t)) (timers s) \<and> promises s = [] \<and>
        events s = ev0 @ [toSlide] \<and> \<not> isTransitioning s \<and> hidden s ! fromSlide)))"

text \<open>What the line animator and the content reveal never write.\<close>

definition engineView :: "state \<Rightarrow> nat \<times> bool list \<times> bool \<times> bool \<times> nat \<times> nat \<times> (nat \<times> nat) list \<times> nat list" where
  "engineView s =
     (currentSlide s, hidden s, isTransitioning s, lineAnimator s, now s, nextPromise s,
      promises s, events s)"

text \<open>Only inert timers are pending, with handles issued before \<open>nextId\<close>.\<close>

definition inertQueue :: "state \<Rightarrow> bool" where
  "inertQueue s = list_all (\<lambda>t. inert (act t) \<and> tid t < nextId s) (timers s)"

text \<open>The ordered pairs of indices that \<open>goToSlide\<close> hands to a special sequence.\<close>

definition specialPair :: "nat \<Rightarrow> nat \<Rightarrow> bool" where
  "specialPair a b = ((a, b) \<in> {(1, 2), (2, 1), (9, 10), (11, 10), (10, 11)})"

subsection \<open>The timers of one transition\<close>

text \<open>
  What protects the two timers and the promise of a transition. Timer handles and
  promises are issued in increasing order. A \<open>scope\<close> names the timers and promises that
  are to stay pending (\<open>keepT\<close>, \<open>keepP\<close>), the range \<open>lo\<close> to \<open>hi\<close> of handles and the
  range \<open>plo\<close> to \<open>phi\<close> of promises that belong to them, the number of slides and the
  clock.
\<close>

record scope =
  keepT :: "timer list"
  lo :: nat
  hi :: nat
  keepP :: "(nat \<times> nat) list"
  plo :: nat
  phi :: nat
  slides :: nat
  clock :: nat

text \<open>A handle, or a promise, that was issued and lies outside the kept range.\<close>

definition okH :: "scope \<Rightarrow> nat \<Rightarrow> nat \<Rightarrow> bool" where
  "okH g n h = (h < lo g \<or> (hi g \<le> h \<and> h < n))"

definition okP :: "scope \<Rightarrow> nat \<Rightarrow> nat \<Rightarrow> bool" where
  "okP g m q = (q < plo g \<or> (phi g \<le> q \<and> q < m))"

text \<open>
  What a callback captured: the callbacks of \<open>transition\<close> hold a promise, and the
  completion callback also the handle of its safety timer, which it clears.
\<close>

fun okAct :: "scope \<Rightarrow> nat \<Rightarrow> nat \<Rightarrow> action \<Rightarrow> bool" where
  "okAct g n m (Safety q) = okP g m q"
| "okAct g n m (TransEnd q h f) = (okP g m q \<and> okH g n h)"
| "okAct g n m a = True"

text \<open>
  The kept timers and promises are pending, and every other handle the state mentions
  (of a pending timer, captured by a pending callback, recorded by the line animator or
  by the resize handler) and every other promise was issued and lies outside the kept
  range.
\<close>

definition intact :: "scope \<Rightarrow> state \<Rightarrow> bool" where
  "intact g s =
     (lo g \<le> hi g \<and> hi g \<le> nextId s \<and> plo g \<le> phi g \<and> phi g \<le> nextPromise s \<and>
      length (hidden s) = slides g \<and> now s = clock g \<and>
      (\<forall>x \<in> set (keepT g). x \<in> set (timers s) \<and> lo g \<le> tid x \<and> tid x < hi g) \<and>
      (\<forall>t \<in> set (timers s).
         t \<in> set (keepT g) \<or>
         (okH g (nextId s) (tid t) \<and> okAct g (nextId s) (nextPromise s) (act t))) \<and>
      (\<forall>h \<in> set (timelineTimeouts s). okH g (nextId s) h) \<and>
      (\<forall>h \<in> set (slide10To11Timeouts s). okH g (nextId s) h) \<and>
      (\<forall>h \<in> set (slide12SplitTimeouts s). okH g (nextId s) h) \<and>
      (\<forall>h \<in> set (slide12ReverseTimeouts s). okH g (nextId s) h) \<and>
      (\<forall>h \<in> set_option (slide12ExpansionTimeout s). okH g (nextId s) h) \<and>
      (\<forall>h \<in> set_option (resizeTimeout s). okH g (nextId s) h) \<and>
      (\<forall>e \<in> set (keepP g). e \<in> set (promises s) \<and> plo g \<le> fst e \<and> fst e < phi g) \<and>
      (\<forall>e \<in> set (promises s). e \<in> set (keepP g) \<or> okP g (nextPromise s) (fst e)))"

text \<open>
  With nothing kept this says that every handle the state mentions is below \<open>nextId\<close>
  and every promise below \<open>nextPromise\<close>: no handle or promise is used before it is
  issued.
\<close>

definition nothingKept :: "nat \<Rightarrow> nat \<Rightarrow> scope" where
  "nothingKept N T =
     \<lparr>keepT = [], lo = 0, hi = 0, keepP = [], plo = 0, phi = 0, slides = N, clock = T\<rparr>"

definition wellFormed :: "state \<Rightarrow> bool" where
  "wellFormed s = intact (nothingKept (length (hidden s)) (now s)) s"

text \<open>
  The scope of one transition: its completion timer \<open>P\<close>, its safety timer \<open>S\<close>, whose
  handles are consecutive, and its promise \<open>e\<close>.
\<close>

definition flightScope :: "timer \<Rightarrow> timer \<Rightarrow> nat \<times> nat \<Rightarrow> nat \<Rightarrow> nat \<Rightarrow> scope" where
  "flightScope P S e N T =
     \<lparr>keepT = [P, S], lo = tid S, hi = Suc (Suc (tid S)), keepP = [e], plo = fst e,
       phi = Suc (fst e), slides = N, clock = T\<rparr>"

text \<open>
  The state in which an animated \<open>goToSlide(i)\<close> that takes the generic branch calls
  \<open>transition\<close>: after the cancel block (when a transition was running), the reset of the
  slide being left, \<open>updatePath\<close> and \<open>triggerSlideAnimations\<close>.
\<close>

definition beforeTransition :: "config \<Rightarrow> nat \<Rightarrow> state \<Rightarrow> state" where
  "beforeTransition c i s =
     (let s0 = (if isTransitioning s then cancelInFlight (int i) s else s);
          s1 = (leaveSlide i s0)\<lparr>isTransitioning := True\<rparr>;
          s2 = (if lineAnimator s0 then updatePath c i True s1 else s1)
      in if animationsEnabled c then triggerSlideAnimations c i s2 else s2)"

text \<open>
  What the page can do after state \<open>s\<close> while the timer \<open>P\<close> has not fired: calls of
  \<open>goToSlide\<close>, other timers firing in their order, time passing while no timer is due,
  resize events.
\<close>

inductive follows :: "config \<Rightarrow> timer \<Rightarrow> state \<Rightarrow> state \<Rightarrow> bool"
  for c :: config and P :: timer and s :: state where
  refl: "follows c P s s"
| call: "follows c P s u \<Longrightarrow> hidden u \<noteq> [] \<Longrightarrow> follows c P s (goToSlide c index animate u)"
| timer: "follows c P s u \<Longrightarrow> earliest (timers u) = Some t \<Longrightarrow> t \<noteq> P \<Longrightarrow>
          follows c P s (fire c t u)"
| wait: "follows c P s u \<Longrightarrow> \<forall>t \<in> set (timers u). T < due t \<Longrightarrow> follows c P s (passTime T u)"
| resize: "follows c P s u \<Longrightarrow> follows c P s (handleResize u)"

text \<open>The timer loop left alone: the next \<open>k\<close> timers fire.\<close>

fun steps :: "config \<Rightarrow> nat \<Rightarrow> state \<Rightarrow> state option" where
  "steps c 0 s = Some s"
| "steps c (Suc k) s =
     (case earliest (timers s) of None \<Rightarrow> None | Some t \<Rightarrow> steps c k (fire c t s))"

text \<open>
  A bound on the timers a callback can lead to: itself, the timers it sets and what
  those set. \<open>maxReveal\<close> is the largest number of animated elements of a slide.
\<close>

definition maxReveal :: "config \<Rightarrow> nat" where
  "maxReveal c = foldr max (map length (animDelays c)) 0"

fun weight :: "config \<Rightarrow> action \<Rightarrow> nat" where
  "weight c (SwoopOnComplete a b i) = maxReveal c + 3"
| "weight c (RevSwoopOnComplete a b i) = maxReveal c + 3"
| "weight c (S1011_t1 a b i) = maxReveal c + 3"
| "weight c (Rev_r1 a b i) = maxReveal c + 3"
| "weight c Split_t0 = maxReveal c + 5"
| "weight c Split_t4 = maxReveal c + 1"
| "weight c a = 1"

definition load :: "config \<Rightarrow> state \<Rightarrow> nat" where
  "load c s = sum_list (map (\<lambda>t. weight c (act t)) (timers s))"

section \<open>Properties\<close>

subsection \<open>Evaluating the scenarios\<close>

lemma nexts11_current:
  "map_option (\<lambda>s. (currentSlide s, isTransitioning s, timers s)) (nexts app 11 (boot app))
     = Some (11, False, [])"
  by code_simp

lemma revealTimers_eq:
  "revealTimers c sl i ds s =
     s\<lparr>timers := timers s @ revealList c sl i (nextId s) (now s) ds,
       nextId := nextId s + length ds\<rparr>"
  by (induction ds arbitrary: i s) (simp_all add: setTimeout_def)

subsection \<open>Navigation to the current slide\<close>

text \<open>
  C7. While the engine is idle, \<open>goToSlide(currentSlide)\<close> (animated, the default) returns
  the state unchanged: no hidden flag flips, no timer is set, no \<open>slidechange\<close> is
  dispatched.
\<close>

theorem goToSlide_current_idle_noop:
  "\<not> isTransitioning s \<Longrightarrow> currentSlide s < length (hidden s) \<Longrightarrow>
   goToSlide c (int (currentSlide s)) True s = s"
  by (simp add: goToSlide_def boundsCheck_def)

theorem goToSlide_current_idle_noop_witness:
  "\<not> isTransitioning (boot app) \<and> currentSlide (boot app) < length (hidden (boot app)) \<and>
   goToSlide app (int (currentSlide (boot app))) True (boot app) = boot app"
proof -
  have h1: "\<not> isTransitioning (boot app)" by code_simp
  have h2: "currentSlide (boot app) < length (hidden (boot app))" by code_simp
  show ?thesis using h1 h2 goToSlide_current_idle_noop [OF h1 h2, of app] by simp
qed

text \<open>
  C10. The no-op holds for animated calls only. While the engine is idle,
  \<open>goToSlide(currentSlide, false)\<close> does not return early: it clears the slide's hidden
  flag, dispatches \<open>slidechange\<close> with the index and, when the line animator is set and
  the index is one of the twelve it knows, sets the path of that slide without a CSS
  transition.
\<close>

theorem goToSlide_current_not_animated:
  "\<not> isTransitioning s \<Longrightarrow> currentSlide s < length (hidden s) \<Longrightarrow>
   (let s' = goToSlide c (int (currentSlide s)) False s in
      \<not> hidden s' ! currentSlide s \<and>
      events s' = events s @ [currentSlide s] \<and>
      currentSlide s' = currentSlide s \<and>
      (lineAnimator s \<longrightarrow> currentSlide s \<le> 11 \<longrightarrow>
         getPathForSlide c (currentSlide s) = Some (pathD s') \<and> pathTransition s' = None))"
  by (auto simp add: goToSlide_def boundsCheck_def navigate_def leaveSlide_def genericBranch_def
      afterSlideChange_def triggerSlideAnimations_def revealTimers_eq setHidden_def
      updatePath_def setPath_def getPathForSlide_def cancelSlide12Split_def
      clearSplitTimeouts_def clearReverseTimeouts_def cancelTimelineAnimation_def
      clearTimeouts_def Let_def)

theorem goToSlide_current_not_animated_witness:
  "\<not> isTransitioning (boot app) \<and> currentSlide (boot app) < length (hidden (boot app)) \<and>
   lineAnimator (boot app) \<and> currentSlide (boot app) \<le> 11 \<and>
   \<not> hidden (goToSlide app 0 False (boot app)) ! 0 \<and>
   events (goToSlide app 0 False (boot app)) = events (boot app) @ [0] \<and>
   getPathForSlide app 0 = Some (pathD (goToSlide app 0 False (boot app))) \<and>
   pathTransition (goToSlide app 0 False (boot app)) = None"
proof -
  have h1: "\<not> isTransitioning (boot app)" by code_simp
  have h2: "currentSlide (boot app) < length (hidden (boot app))" by code_simp
  have h3: "lineAnimator (boot app)" by code_simp
  have h4: "currentSlide (boot app) = 0" by code_simp
  show ?thesis
    using h1 h2 h3 h4 goToSlide_current_not_animated [OF h1 h2, of app]
    by (simp add: Let_def)
qed

subsection \<open>Interrupted navigation\<close>

text \<open>
  C1. The invariant "once settled, exactly one slide is visible" does not hold for every
  sequence of calls. On the first slide, \<open>next()\<close> followed 100 ms later by \<open>prev()\<close>:
  the timer of the first transition is not cancelled, it hides slide 0 after the second
  transition has shown it, and the second transition hides slide 1. When every timer
  has fired the engine is idle on index 0 and all twelve slides are hidden.
\<close>

theorem nextThenPrev_all_hidden:
  "map_option (\<lambda>s. (isTransitioning s, timers s, currentSlide s, hidden s)) nextThenPrev
     = Some (False, [], 0, replicate 12 True)"
  unfolding nextThenPrev_def by code_simp

text \<open>
  C5. The debounce compares \<open>index\<close> with \<open>currentSlide\<close>, which the branch of slide 11
  to 12 assigns only on completion. On the settled slide of index 10,
  \<open>goToSlide(11)\<close> twice in a row starts two transitions, and \<open>slidechange\<close> is
  dispatched twice with index 11.
\<close>

theorem twiceTo11_two_notifications:
  "map_option (\<lambda>s. (isTransitioning s, timers s, filter (\<lambda>e. e = 11) (events s))) twiceTo11
     = Some (False, [], [11, 11])"
  unfolding twiceTo11_def by code_simp

subsection \<open>The scenario of twelve slides\<close>

text \<open>
  C6, as stated: eleven calls of \<open>next()\<close> from index 0, each after the previous one has
  settled, would leave the index at 10. They leave it at 11.
\<close>

theorem eleven_nexts_not_10:
  "map_option currentSlide (nexts app 11 (boot app)) \<noteq> Some 10"
  using nexts11_current by (cases "nexts app 11 (boot app)") auto

text \<open>
  C6, amended. With twelve slides, index 0 and \<open>loop = false\<close>, eleven calls of
  \<open>next()\<close>, each after the previous one has settled, leave the index at 11, the last
  slide; a twelfth call changes nothing; with \<open>loop\<close> enabled the twelfth call leads to
  index 0.
\<close>

theorem eleven_nexts_reach_last:
  "map_option currentSlide (nexts app 11 (boot app)) = Some 11 \<and>
   map_option (\<lambda>s. next app s = s) (nexts app 11 (boot app)) = Some True \<and>
   map_option currentSlide
     (Option.bind (nexts app 11 (boot app))
        (\<lambda>s. settle (app\<lparr>loop := True\<rparr>) 100 (next (app\<lparr>loop := True\<rparr>) s))) = Some 0"
  by code_simp

subsection \<open>When the index is assigned\<close>

text \<open>
  C9. Both disciplines occur. From index 1, \<open>goToSlide(2)\<close> assigns \<open>currentSlide = 2\<close>
  at once, while the engine is transitioning, slide 2 is still hidden and nothing has
  been dispatched. From index 10, \<open>goToSlide(11)\<close> leaves \<open>currentSlide\<close> at 10 with
  the transition's promise pending; the index is still 10 just before the transition's
  timer is due after 400 ms and 11 once it has fired.
\<close>

theorem eager_and_deferred_index:
  "map_option
     (\<lambda>s. let s' = goToSlide app 2 True s
           in (currentSlide s, currentSlide s', isTransitioning s', hidden s' ! 2,
               events s' = events s))
     (nexts app 1 (boot app)) = Some (1, 2, True, True, True) \<and>
   map_option
     (\<lambda>s. let s' = goToSlide app 11 True s
           in (currentSlide s, currentSlide s', isTransitioning s', promises s',
               map_option currentSlide (advance app (now s + 399) 100 s'),
               map_option currentSlide (advance app (now s + 400) 100 s')))
     (nexts app 10 (boot app)) = Some (10, 10, True, [(10, 11)], Some 10, Some 11)"
  by code_simp

subsection \<open>The timer bookkeeping is an invariant\<close>

lemma tracked_fields [simp]:
  "tracked (isTransitioning_update f1 s) = tracked s"
  "tracked (isAnimating_update f2 s) = tracked s"
  "tracked (currentSlide_update f3 s) = tracked s"
  "tracked (hidden_update f4 s) = tracked s"
  "tracked (animIn_update f5 s) = tracked s"
  "tracked (la_currentSlide_update f6 s) = tracked s"
  "tracked (onContentReadyCallback_update f7 s) = tracked s"
  "tracked (resizeTimeout_update f8 s) = tracked s"
  "tracked (pathD_update f9 s) = tracked s"
  "tracked (pathTransition_update f10 s) = tracked s"
  "tracked (now_update f11 s) = tracked s"
  "tracked (nextPromise_update f12 s) = tracked s"
  "tracked (promises_update f13 s) = tracked s"
  "tracked (events_update f14 s) = tracked s"
  "tracked (lineAnimator_update f15 s) = tracked s"
  by (simp_all add: tracked_def)

lemma tracked_setTimeout:
  "tracked s \<Longrightarrow> sequenceOf a \<in> {Swoop, RevSwoop, NoSequence} \<Longrightarrow> tracked (setTimeout a d s)"
  by (auto simp: tracked_def setTimeout_def less_Suc_eq)

lemma tracked_clearTimeout: "tracked s \<Longrightarrow> tracked (clearTimeout i s)"
  by (auto simp: tracked_def clearTimeout_def)

lemma tracked_clearTimeouts: "tracked s \<Longrightarrow> tracked (clearTimeouts ids s)"
  by (auto simp: tracked_def clearTimeouts_def)

lemma tracked_pushTimeline:
  "tracked s \<Longrightarrow> sequenceOf a = Timeline \<Longrightarrow> tracked (pushTimeline a d s)"
  by (auto simp: tracked_def pushTimeline_def setTimeout_def less_Suc_eq)

lemma tracked_push10To11:
  "tracked s \<Longrightarrow> sequenceOf a = Swoop10To11 \<Longrightarrow> tracked (push10To11 a d s)"
  by (auto simp: tracked_def push10To11_def setTimeout_def less_Suc_eq)

lemma tracked_pushReverse:
  "tracked s \<Longrightarrow> sequenceOf a = ReverseSplit \<Longrightarrow> tracked (pushReverse a d s)"
  by (auto simp: tracked_def pushReverse_def setTimeout_def less_Suc_eq)

lemma tracked_pushSplit:
  "tracked s \<Longrightarrow> sequenceOf a = Split \<Longrightarrow> tracked (pushSplit a d s)"
  by (auto simp: tracked_def pushSplit_def setTimeout_def less_Suc_eq)

lemma tracked_cancelTimelineAnimation: "tracked s \<Longrightarrow> tracked (cancelTimelineAnimation s)"
  by (auto simp: tracked_def cancelTimelineAnimation_def clearTimeouts_def)

lemma tracked_cancelSlide10To11Swoop: "tracked s \<Longrightarrow> tracked (cancelSlide10To11Swoop s)"
  by (auto simp: tracked_def cancelSlide10To11Swoop_def clearTimeouts_def)

lemma tracked_cancelSlide12Expansion: "tracked s \<Longrightarrow> tracked (cancelSlide12Expansion s)"
  by (auto simp: tracked_def cancelSlide12Expansion_def clearTimeout_def split: option.splits)

lemma tracked_clearSplitTimeouts: "tracked s \<Longrightarrow> tracked (clearSplitTimeouts s)"
  by (auto simp: tracked_def clearSplitTimeouts_def clearTimeouts_def)

lemma tracked_clearReverseTimeouts: "tracked s \<Longrightarrow> tracked (clearReverseTimeouts s)"
  by (auto simp: tracked_def clearReverseTimeouts_def clearTimeouts_def)

lemma tracked_cancelSlide12Split: "tracked s \<Longrightarrow> tracked (cancelSlide12Split s)"
  by (simp add: cancelSlide12Split_def tracked_clearSplitTimeouts tracked_clearReverseTimeouts)

lemma tracked_setPath [simp]: "tracked (setPath p tr s) = tracked s"
  by (simp add: setPath_def)

lemma tracked_setHidden [simp]: "tracked (setHidden i b s) = tracked s"
  by (simp add: setHidden_def)

lemma tracked_animateSlide12Expansion: "tracked s \<Longrightarrow> tracked (animateSlide12Expansion s)"
  by (auto simp: tracked_def animateSlide12Expansion_def cancelSlide12Expansion_def
      clearTimeout_def setTimeout_def setPath_def Let_def less_Suc_eq split: option.splits)

lemma tracked_scheduleSegments:
  "tracked s \<Longrightarrow> tracked (snd (scheduleSegments segs i d s))"
  by (induction segs i d s rule: scheduleSegments.induct) (simp_all add: tracked_pushTimeline)

lemma tracked_animateTimelineStepByStep:
  "tracked s \<Longrightarrow> tracked (animateTimelineStepByStep c s)"
  by (simp add: animateTimelineStepByStep_def Let_def split_beta tracked_pushTimeline
      tracked_scheduleSegments tracked_cancelTimelineAnimation)

lemma tracked_updatePath: "tracked s \<Longrightarrow> tracked (updatePath c i a s)"
  by (simp add: updatePath_def Let_def tracked_cancelTimelineAnimation
      tracked_animateTimelineStepByStep tracked_animateSlide12Expansion
      tracked_cancelSlide12Split split: option.splits)


lemma tracked_revealTimers: "tracked s \<Longrightarrow> tracked (revealTimers c sl i ds s)"
  by (induction ds arbitrary: i s) (simp_all add: tracked_setTimeout)

lemma tracked_triggerSlideAnimations: "tracked s \<Longrightarrow> tracked (triggerSlideAnimations c sl s)"
  by (simp add: triggerSlideAnimations_def tracked_revealTimers)

lemma tracked_afterSlideChange: "tracked s \<Longrightarrow> tracked (afterSlideChange c i b s)"
  by (simp add: afterSlideChange_def Let_def tracked_triggerSlideAnimations)

lemma tracked_transition: "tracked s \<Longrightarrow> tracked (transition c a b i s)"
  by (simp add: transition_def Let_def tracked_setTimeout)

lemma tracked_resolve: "tracked s \<Longrightarrow> tracked (resolve c p s)"
  by (simp add: resolve_def tracked_afterSlideChange split: option.splits)

lemma tracked_onComplete: "tracked s \<Longrightarrow> tracked (onComplete c a b i s)"
  by (simp add: onComplete_def tracked_transition tracked_triggerSlideAnimations)

lemma tracked_onSlideReady: "tracked s \<Longrightarrow> tracked (onSlideReady c a b i s)"
  by (simp add: onSlideReady_def tracked_transition)

lemma tracked_onContentReady: "tracked s \<Longrightarrow> tracked (onContentReady c n s)"
  by (simp add: onContentReady_def tracked_triggerSlideAnimations)

lemma tracked_animateSlide10To11Swoop:
  "tracked s \<Longrightarrow> tracked (animateSlide10To11Swoop c a b i s)"
  by (simp add: animateSlide10To11Swoop_def Let_def tracked_push10To11
      tracked_cancelSlide10To11Swoop)

lemma tracked_animateSlide12To11Reverse:
  "tracked s \<Longrightarrow> tracked (animateSlide12To11Reverse a b i s)"
  by (simp add: animateSlide12To11Reverse_def Let_def tracked_pushReverse
      tracked_clearSplitTimeouts tracked_clearReverseTimeouts tracked_cancelSlide12Expansion)

lemma tracked_animateSlide11To12Split:
  "tracked s \<Longrightarrow> tracked (animateSlide11To12Split c a b i s)"
  by (simp add: animateSlide11To12Split_def Let_def tracked_pushSplit tracked_onSlideReady
      tracked_onContentReady tracked_cancelSlide12Expansion tracked_cancelSlide12Split
      tracked_cancelSlide10To11Swoop)

lemma tracked_continueSlide12SplitAnimation:
  "tracked s \<Longrightarrow> tracked (continueSlide12SplitAnimation s)"
  by (simp add: continueSlide12SplitAnimation_def tracked_pushSplit)

lemma tracked_animateSwoopTransition: "tracked s \<Longrightarrow> tracked (animateSwoopTransition a b i s)"
  by (simp add: animateSwoopTransition_def Let_def tracked_setTimeout)

lemma tracked_animateReverseSwoopTransition:
  "tracked s \<Longrightarrow> tracked (animateReverseSwoopTransition a b i s)"
  by (simp add: animateReverseSwoopTransition_def Let_def tracked_setTimeout)

lemma tracked_handleResize: "tracked s \<Longrightarrow> tracked (handleResize s)"
  by (simp add: handleResize_def Let_def tracked_setTimeout tracked_clearTimeout
      split: option.splits)

lemma tracked_cancelInFlight: "tracked s \<Longrightarrow> tracked (cancelInFlight index s)"
  by (simp add: cancelInFlight_def Let_def tracked_cancelSlide12Expansion
      tracked_cancelSlide12Split tracked_cancelSlide10To11Swoop tracked_cancelTimelineAnimation)

lemma tracked_leaveSlide: "tracked s \<Longrightarrow> tracked (leaveSlide index s)"
  by (simp add: leaveSlide_def Let_def resetSlideAnimations_def tracked_cancelSlide12Expansion
      tracked_cancelSlide12Split)

lemma tracked_splitBranch: "tracked s \<Longrightarrow> tracked (splitBranch c a i s)"
  by (simp add: splitBranch_def Let_def tracked_animateSlide11To12Split
      tracked_cancelSlide12Expansion tracked_cancelSlide12Split tracked_cancelSlide10To11Swoop
      tracked_cancelTimelineAnimation)

lemma tracked_genericBranch: "tracked s \<Longrightarrow> tracked (genericBranch c a i b s)"
  by (simp add: genericBranch_def Let_def tracked_transition tracked_triggerSlideAnimations
      tracked_updatePath tracked_afterSlideChange)

lemma tracked_navigate: "tracked s \<Longrightarrow> tracked (navigate c i b s)"
  by (simp add: navigate_def Let_def tracked_genericBranch tracked_splitBranch
      tracked_leaveSlide tracked_animateSlide12To11Reverse tracked_clearSplitTimeouts
      tracked_animateSlide10To11Swoop tracked_cancelTimelineAnimation
      tracked_animateReverseSwoopTransition tracked_animateSwoopTransition
      tracked_afterSlideChange tracked_updatePath)

lemma tracked_goToSlide: "tracked s \<Longrightarrow> tracked (goToSlide c index animate s)"
  by (simp add: goToSlide_def Let_def tracked_navigate tracked_cancelInFlight)

lemma tracked_removed:
  "tracked s \<Longrightarrow> tracked (s\<lparr>timers := filter (\<lambda>u. tid u \<noteq> i) (timers s)\<rparr>)"
  by (auto simp: tracked_def)

lemma tracked_expansion_fired:
  assumes "tracked s" "t \<in> set (timers s)" "act t = Expansion"
  shows "tracked (s\<lparr>timers := filter (\<lambda>u. tid u \<noteq> tid t) (timers s),
                    slide12ExpansionTimeout := None\<rparr>)"
proof -
  have h: "slide12ExpansionTimeout s = Some (tid t)"
    using assms by (simp add: tracked_def)
  have "tid u = tid t" if "u \<in> set (timers s)" "sequenceOf (act u) = Expand" for u
    using that assms(1) h by (auto simp: tracked_def)
  then show ?thesis
    using assms(1) by (auto simp: tracked_def)
qed

lemma tracked_fire: "tracked s \<Longrightarrow> t \<in> set (timers s) \<Longrightarrow> tracked (fire c t s)"
proof (cases "act t")
  case Expansion
  assume "tracked s" "t \<in> set (timers s)"
  then have "tracked (s\<lparr>timers := filter (\<lambda>u. tid u \<noteq> tid t) (timers s),
                       slide12ExpansionTimeout := None\<rparr>)"
    using Expansion by (rule tracked_expansion_fired)
  moreover have "tracked (fire c t s) =
      tracked (s\<lparr>timers := filter (\<lambda>u. tid u \<noteq> tid t) (timers s),
                 slide12ExpansionTimeout := None\<rparr>)"
    using Expansion by (simp add: fire_def setPath_def tracked_def)
  ultimately show ?thesis by simp
next
  case ResizeDone
  assume "tracked s" "t \<in> set (timers s)"
  with ResizeDone show ?thesis
    by (simp add: fire_def Let_def tracked_removed tracked_cancelTimelineAnimation
        tracked_updatePath)
qed (simp_all add: fire_def tracked_removed tracked_resolve tracked_clearTimeout
      tracked_onComplete tracked_continueSlide12SplitAnimation tracked_onContentReady
      split: option.splits)

lemma earliest_mem: "earliest ts = Some t \<Longrightarrow> t \<in> set ts"
  by (induction ts arbitrary: t) (auto split: option.splits if_splits)

lemma earliest_least: "earliest ts = Some t \<Longrightarrow> u \<in> set ts \<Longrightarrow> due t \<le> due u"
proof (induction ts arbitrary: t u)
  case Nil
  then show ?case by simp
next
  case (Cons a ts)
  show ?case
  proof (cases "earliest ts")
    case None
    then have "ts = []" by (cases ts) (auto split: option.splits if_splits)
    with Cons.prems None show ?thesis by simp
  next
    case (Some v)
    have v: "due v \<le> due w" if "w \<in> set ts" for w
      using Cons.IH [OF Some that] .
    from Cons.prems Some show ?thesis
      by (auto split: if_splits dest: v)
  qed
qed

lemma tracked_initial: "tracked (initial c)"
  by (simp add: tracked_def initial_def)

lemma tracked_boot: "tracked (boot c)"
  by (simp add: boot_def engineInit_def Let_def tracked_updatePath tracked_goToSlide
      tracked_initial)

lemma reachable_tracked: "reachable c s \<Longrightarrow> tracked s"
  by (induction rule: reachable.induct)
    (simp_all add: tracked_boot tracked_goToSlide tracked_fire earliest_mem tracked_handleResize
      passTime_def)

subsection \<open>What a start leaves of earlier timers\<close>

lemma fresh_fields [simp]:
  "fresh q n (isTransitioning_update f1 s) = fresh q n s"
  "fresh q n (isAnimating_update f2 s) = fresh q n s"
  "fresh q n (currentSlide_update f3 s) = fresh q n s"
  "fresh q n (hidden_update f4 s) = fresh q n s"
  "fresh q n (animIn_update f5 s) = fresh q n s"
  "fresh q n (la_currentSlide_update f6 s) = fresh q n s"
  "fresh q n (onContentReadyCallback_update f7 s) = fresh q n s"
  "fresh q n (resizeTimeout_update f8 s) = fresh q n s"
  "fresh q n (pathD_update f9 s) = fresh q n s"
  "fresh q n (pathTransition_update f10 s) = fresh q n s"
  "fresh q n (now_update f11 s) = fresh q n s"
  "fresh q n (nextPromise_update f12 s) = fresh q n s"
  "fresh q n (promises_update f13 s) = fresh q n s"
  "fresh q n (events_update f14 s) = fresh q n s"
  "fresh q n (lineAnimator_update f15 s) = fresh q n s"
  "fresh q n (timelineTimeouts_update g1 s) = fresh q n s"
  "fresh q n (slide12ExpansionTimeout_update g2 s) = fresh q n s"
  "fresh q n (slide12SplitTimeouts_update g3 s) = fresh q n s"
  "fresh q n (slide12ReverseTimeouts_update g4 s) = fresh q n s"
  "fresh q n (slide10To11Timeouts_update g5 s) = fresh q n s"
  by (simp_all add: fresh_def)

lemma fresh_setTimeout: "fresh q n s \<Longrightarrow> fresh q n (setTimeout a d s)"
  by (auto simp: fresh_def setTimeout_def)

lemma fresh_clearTimeout: "fresh q n s \<Longrightarrow> fresh q n (clearTimeout i s)"
  by (auto simp: fresh_def clearTimeout_def)

lemma fresh_clearTimeouts: "fresh q n s \<Longrightarrow> fresh q n (clearTimeouts ids s)"
  by (auto simp: fresh_def clearTimeouts_def)

lemma fresh_setPath [simp]: "fresh q n (setPath p tr s) = fresh q n s"
  by (simp add: setPath_def)

lemma fresh_setHidden [simp]: "fresh q n (setHidden i b s) = fresh q n s"
  by (simp add: setHidden_def)

lemma fresh_pushTimeline: "fresh q n s \<Longrightarrow> fresh q n (pushTimeline a d s)"
  by (simp add: pushTimeline_def fresh_setTimeout)

lemma fresh_push10To11: "fresh q n s \<Longrightarrow> fresh q n (push10To11 a d s)"
  by (simp add: push10To11_def fresh_setTimeout)

lemma fresh_pushReverse: "fresh q n s \<Longrightarrow> fresh q n (pushReverse a d s)"
  by (simp add: pushReverse_def fresh_setTimeout)

lemma fresh_pushSplit: "fresh q n s \<Longrightarrow> fresh q n (pushSplit a d s)"
  by (simp add: pushSplit_def fresh_setTimeout)

lemma fresh_cancelTimelineAnimation: "fresh q n s \<Longrightarrow> fresh q n (cancelTimelineAnimation s)"
  by (simp add: cancelTimelineAnimation_def fresh_clearTimeouts)

lemma fresh_cancelSlide10To11Swoop: "fresh q n s \<Longrightarrow> fresh q n (cancelSlide10To11Swoop s)"
  by (simp add: cancelSlide10To11Swoop_def fresh_clearTimeouts)

lemma fresh_cancelSlide12Expansion: "fresh q n s \<Longrightarrow> fresh q n (cancelSlide12Expansion s)"
  by (simp add: cancelSlide12Expansion_def fresh_clearTimeout split: option.splits)

lemma fresh_clearSplitTimeouts: "fresh q n s \<Longrightarrow> fresh q n (clearSplitTimeouts s)"
  by (simp add: clearSplitTimeouts_def fresh_clearTimeouts)

lemma fresh_clearReverseTimeouts: "fresh q n s \<Longrightarrow> fresh q n (clearReverseTimeouts s)"
  by (simp add: clearReverseTimeouts_def fresh_clearTimeouts)

lemma fresh_cancelSlide12Split: "fresh q n s \<Longrightarrow> fresh q n (cancelSlide12Split s)"
  by (simp add: cancelSlide12Split_def fresh_clearSplitTimeouts fresh_clearReverseTimeouts)

lemma fresh_revealTimers: "fresh q n s \<Longrightarrow> fresh q n (revealTimers c sl i ds s)"
  by (induction ds arbitrary: i s) (simp_all add: fresh_setTimeout)

lemma fresh_triggerSlideAnimations: "fresh q n s \<Longrightarrow> fresh q n (triggerSlideAnimations c sl s)"
  by (simp add: triggerSlideAnimations_def fresh_revealTimers)

lemma fresh_transition: "fresh q n s \<Longrightarrow> fresh q n (transition c a b i s)"
  by (simp add: transition_def Let_def fresh_setTimeout)

lemma fresh_onSlideReady: "fresh q n s \<Longrightarrow> fresh q n (onSlideReady c a b i s)"
  by (simp add: onSlideReady_def fresh_transition)

lemma fresh_onContentReady: "fresh q n s \<Longrightarrow> fresh q n (onContentReady c sl s)"
  by (simp add: onContentReady_def fresh_triggerSlideAnimations)

lemma fresh_scheduleSegments:
  "fresh q n s \<Longrightarrow> fresh q n (snd (scheduleSegments segs i d s))"
  by (induction segs i d s rule: scheduleSegments.induct) (simp_all add: fresh_pushTimeline)

text \<open>A cancel operation leaves no pending timer of the sequences it clears.\<close>

lemma cancelTimelineAnimation_fresh:
  "tracked s \<Longrightarrow> fresh Timeline (nextId s) (cancelTimelineAnimation s)"
  by (auto simp: fresh_def tracked_def cancelTimelineAnimation_def clearTimeouts_def)

lemma cancelSlide10To11Swoop_fresh:
  "tracked s \<Longrightarrow> fresh Swoop10To11 (nextId s) (cancelSlide10To11Swoop s)"
  by (auto simp: fresh_def tracked_def cancelSlide10To11Swoop_def clearTimeouts_def)

lemma cancelSlide12Expansion_fresh:
  "tracked s \<Longrightarrow> fresh Expand (nextId s) (cancelSlide12Expansion s)"
  by (auto simp: fresh_def tracked_def cancelSlide12Expansion_def clearTimeout_def
      split: option.splits)

lemma clearSplitTimeouts_fresh:
  "tracked s \<Longrightarrow> fresh Split (nextId s) (clearSplitTimeouts s)"
  by (auto simp: fresh_def tracked_def clearSplitTimeouts_def clearTimeouts_def)

lemma clearReverseTimeouts_fresh:
  "tracked s \<Longrightarrow> fresh ReverseSplit (nextId s) (clearReverseTimeouts s)"
  by (auto simp: fresh_def tracked_def clearReverseTimeouts_def clearTimeouts_def)

text \<open>The cancel operations issue no handle.\<close>

lemma nextId_cancel [simp]:
  "nextId (clearTimeout j s) = nextId s"
  "nextId (clearTimeouts ids s) = nextId s"
  "nextId (cancelTimelineAnimation s) = nextId s"
  "nextId (cancelSlide10To11Swoop s) = nextId s"
  "nextId (cancelSlide12Expansion s) = nextId s"
  "nextId (clearSplitTimeouts s) = nextId s"
  "nextId (clearReverseTimeouts s) = nextId s"
  "nextId (cancelSlide12Split s) = nextId s"
  by (simp_all add: clearTimeout_def clearTimeouts_def cancelTimelineAnimation_def
      cancelSlide10To11Swoop_def cancelSlide12Expansion_def clearSplitTimeouts_def
      clearReverseTimeouts_def cancelSlide12Split_def split: option.splits)

text \<open>What a state that is fresh from \<open>nextId s\<close> on says about the timers of \<open>s\<close>.\<close>

lemma fresh_disjoint:
  "tracked s \<Longrightarrow> fresh q (nextId s) s' \<Longrightarrow> set (live q s) \<inter> set (timers s') = {}"
  by (fastforce simp: fresh_def tracked_def live_def)

lemma fresh_animateTimelineStepByStep:
  "tracked s \<Longrightarrow> timelineDom c \<Longrightarrow> fresh Timeline (nextId s) (animateTimelineStepByStep c s)"
  using fresh_scheduleSegments [of Timeline "nextId s"
      "setPath PathTimelineHeader None (cancelTimelineAnimation s)" drawSegments 0 50]
  by (simp add: animateTimelineStepByStep_def Let_def split_beta fresh_pushTimeline
      cancelTimelineAnimation_fresh)

lemma fresh_animateSlide10To11Swoop:
  "tracked s \<Longrightarrow> fresh Swoop10To11 (nextId s) (animateSlide10To11Swoop c a b i s)"
  by (simp add: animateSlide10To11Swoop_def Let_def fresh_push10To11
      cancelSlide10To11Swoop_fresh)

lemma fresh_animateSlide12Expansion:
  "tracked s \<Longrightarrow> fresh Expand (nextId s) (animateSlide12Expansion s)"
  by (simp add: animateSlide12Expansion_def Let_def fresh_setTimeout
      cancelSlide12Expansion_fresh)

lemma cancelSlide12Split_fresh:
  "tracked s \<Longrightarrow> fresh Split (nextId s) (cancelSlide12Split s)"
  "tracked s \<Longrightarrow> fresh ReverseSplit (nextId s) (cancelSlide12Split s)"
  using clearReverseTimeouts_fresh [of "clearSplitTimeouts s"]
  by (simp_all add: cancelSlide12Split_def fresh_clearReverseTimeouts clearSplitTimeouts_fresh
      tracked_clearSplitTimeouts)

lemma fresh_animateSlide11To12Split:
  assumes "tracked s"
  shows "fresh Split (nextId s) (animateSlide11To12Split c a b i s)"
    and "fresh ReverseSplit (nextId s) (animateSlide11To12Split c a b i s)"
    and "fresh Swoop10To11 (nextId s) (animateSlide11To12Split c a b i s)"
    and "fresh Expand (nextId s) (animateSlide11To12Split c a b i s)"
proof -
  let ?s1 = "cancelSlide10To11Swoop s"
  let ?s2 = "cancelSlide12Split ?s1"
  let ?s3 = "cancelSlide12Expansion ?s2"
  have t1: "tracked ?s1" using assms by (rule tracked_cancelSlide10To11Swoop)
  have t2: "tracked ?s2" using t1 by (rule tracked_cancelSlide12Split)
  have "fresh Swoop10To11 (nextId s) ?s3"
    using assms by (simp add: cancelSlide10To11Swoop_fresh fresh_cancelSlide12Split
        fresh_cancelSlide12Expansion)
  moreover have "fresh Split (nextId s) ?s3" "fresh ReverseSplit (nextId s) ?s3"
    using cancelSlide12Split_fresh [OF t1] by (simp_all add: fresh_cancelSlide12Expansion)
  moreover have "fresh Expand (nextId s) ?s3"
    using cancelSlide12Expansion_fresh [OF t2] by simp
  ultimately show "fresh Split (nextId s) (animateSlide11To12Split c a b i s)"
    and "fresh ReverseSplit (nextId s) (animateSlide11To12Split c a b i s)"
    and "fresh Swoop10To11 (nextId s) (animateSlide11To12Split c a b i s)"
    and "fresh Expand (nextId s) (animateSlide11To12Split c a b i s)"
    by (simp_all add: animateSlide11To12Split_def Let_def fresh_pushSplit fresh_onSlideReady
        fresh_onContentReady)
qed

lemma fresh_animateSlide12To11Reverse:
  assumes "tracked s"
  shows "fresh ReverseSplit (nextId s) (animateSlide12To11Reverse a b i s)"
    and "fresh Split (nextId s) (animateSlide12To11Reverse a b i s)"
    and "fresh Expand (nextId s) (animateSlide12To11Reverse a b i s)"
proof -
  let ?s1 = "cancelSlide12Expansion s"
  let ?s2 = "clearSplitTimeouts ?s1"
  let ?s3 = "clearReverseTimeouts ?s2"
  have t1: "tracked ?s1" using assms by (rule tracked_cancelSlide12Expansion)
  have t2: "tracked ?s2" using t1 by (rule tracked_clearSplitTimeouts)
  have "fresh Expand (nextId s) ?s3"
    using assms by (simp add: cancelSlide12Expansion_fresh fresh_clearSplitTimeouts
        fresh_clearReverseTimeouts)
  moreover have "fresh Split (nextId s) ?s3"
    using clearSplitTimeouts_fresh [OF t1] by (simp add: fresh_clearReverseTimeouts)
  moreover have "fresh ReverseSplit (nextId s) ?s3"
    using clearReverseTimeouts_fresh [OF t2] by simp
  ultimately show "fresh ReverseSplit (nextId s) (animateSlide12To11Reverse a b i s)"
    and "fresh Split (nextId s) (animateSlide12To11Reverse a b i s)"
    and "fresh Expand (nextId s) (animateSlide12To11Reverse a b i s)"
    by (simp_all add: animateSlide12To11Reverse_def Let_def fresh_pushReverse)
qed

text \<open>Freshness is kept by everything the engine and the animator do.\<close>

lemma fresh_keep_la:
  assumes "fresh q n s"
  shows "fresh q n (animateTimelineStepByStep c s)"
    and "fresh q n (animateSlide12Expansion s)"
    and "fresh q n (animateSlide10To11Swoop c a b i s)"
    and "fresh q n (animateSlide12To11Reverse a b i s)"
    and "fresh q n (animateSlide11To12Split c a b i s)"
    and "fresh q n (animateSwoopTransition a b i s)"
    and "fresh q n (animateReverseSwoopTransition a b i s)"
  using assms fresh_scheduleSegments [of q n
      "setPath PathTimelineHeader None (cancelTimelineAnimation s)" drawSegments 0 50]
  by (simp_all add: animateTimelineStepByStep_def animateSlide12Expansion_def
      animateSlide10To11Swoop_def animateSlide12To11Reverse_def animateSlide11To12Split_def
      animateSwoopTransition_def animateReverseSwoopTransition_def Let_def split_beta
      fresh_pushTimeline fresh_push10To11 fresh_pushReverse fresh_pushSplit fresh_setTimeout
      fresh_cancelTimelineAnimation fresh_cancelSlide10To11Swoop fresh_cancelSlide12Expansion
      fresh_cancelSlide12Split fresh_clearSplitTimeouts fresh_clearReverseTimeouts
      fresh_onSlideReady fresh_onContentReady)

lemma fresh_updatePath: "fresh q n s \<Longrightarrow> fresh q n (updatePath c i a s)"
  by (simp add: updatePath_def Let_def fresh_keep_la fresh_cancelTimelineAnimation
      fresh_cancelSlide12Split split: option.splits)

lemma fresh_afterSlideChange: "fresh q n s \<Longrightarrow> fresh q n (afterSlideChange c i b s)"
  by (simp add: afterSlideChange_def Let_def fresh_triggerSlideAnimations)

lemma fresh_leaveSlide: "fresh q n s \<Longrightarrow> fresh q n (leaveSlide i s)"
  by (simp add: leaveSlide_def resetSlideAnimations_def Let_def fresh_cancelSlide12Expansion
      fresh_cancelSlide12Split)

lemma fresh_splitBranch: "fresh q n s \<Longrightarrow> fresh q n (splitBranch c a i s)"
  by (simp add: splitBranch_def Let_def fresh_keep_la fresh_cancelSlide12Expansion
      fresh_cancelSlide12Split fresh_cancelSlide10To11Swoop fresh_cancelTimelineAnimation)

lemma fresh_genericBranch: "fresh q n s \<Longrightarrow> fresh q n (genericBranch c a i b s)"
  by (simp add: genericBranch_def Let_def fresh_transition fresh_triggerSlideAnimations
      fresh_updatePath fresh_afterSlideChange)

lemma fresh_navigate: "fresh q n s \<Longrightarrow> fresh q n (navigate c i b s)"
  by (simp add: navigate_def Let_def fresh_genericBranch fresh_splitBranch fresh_leaveSlide
      fresh_keep_la fresh_clearSplitTimeouts fresh_cancelTimelineAnimation
      fresh_afterSlideChange fresh_updatePath)

text \<open>The block of \<open>goToSlide\<close> that interrupts a transition clears all five recorded sequences.\<close>

lemma cancelInFlight_fresh:
  assumes "tracked s" "lineAnimator s"
    and "q \<in> {Timeline, Swoop10To11, Split, ReverseSplit, Expand}"
  shows "fresh q (nextId s) (cancelInFlight index s)"
proof -
  let ?s1 = "cancelTimelineAnimation s"
  let ?s2 = "cancelSlide10To11Swoop ?s1"
  let ?s3 = "cancelSlide12Split ?s2"
  let ?s4 = "cancelSlide12Expansion ?s3"
  have t1: "tracked ?s1" using assms(1) by (rule tracked_cancelTimelineAnimation)
  have t2: "tracked ?s2" using t1 by (rule tracked_cancelSlide10To11Swoop)
  have t3: "tracked ?s3" using t2 by (rule tracked_cancelSlide12Split)
  have "fresh Timeline (nextId s) ?s4"
    using assms(1) by (simp add: cancelTimelineAnimation_fresh fresh_cancelSlide10To11Swoop
        fresh_cancelSlide12Split fresh_cancelSlide12Expansion)
  moreover have "fresh Swoop10To11 (nextId s) ?s4"
    using cancelSlide10To11Swoop_fresh [OF t1]
    by (simp add: fresh_cancelSlide12Split fresh_cancelSlide12Expansion)
  moreover have "fresh Split (nextId s) ?s4" "fresh ReverseSplit (nextId s) ?s4"
    using cancelSlide12Split_fresh [OF t2] by (simp_all add: fresh_cancelSlide12Expansion)
  moreover have "fresh Expand (nextId s) ?s4"
    using cancelSlide12Expansion_fresh [OF t3] by simp
  ultimately have "fresh q (nextId s) ?s4" using assms(3) by auto
  then show ?thesis using assms(2) by (simp add: cancelInFlight_def Let_def)
qed

lemma goToSlide_interrupt_fresh:
  assumes "tracked s" "lineAnimator s" "isTransitioning s" "index \<noteq> int (currentSlide s)"
    and "q \<in> {Timeline, Swoop10To11, Split, ReverseSplit, Expand}"
  shows "fresh q (nextId s) (goToSlide c index animate s)"
  using cancelInFlight_fresh [OF assms(1,2,5)] assms(3,4)
  by (simp add: goToSlide_def Let_def fresh_navigate)

lemma splitBranch_fresh_Timeline:
  "tracked s \<Longrightarrow> fresh Timeline (nextId s) (splitBranch c a i s)"
  by (simp add: splitBranch_def Let_def fresh_keep_la fresh_cancelSlide12Expansion
      fresh_cancelSlide12Split fresh_cancelSlide10To11Swoop cancelTimelineAnimation_fresh)

lemma boot_app_slides:
  "hidden (boot app) \<noteq> []" "hidden (goToSlide app 9 False (boot app)) \<noteq> []"
  by code_simp+

lemma timelineRunning_tracked: "tracked timelineRunning"
  unfolding timelineRunning_def
  by (rule reachable_tracked [of app])
    (rule reachable.call, rule reachable.start, rule boot_app_slides(1))

lemma swoop10To11Running_tracked: "tracked swoop10To11Running"
  unfolding swoop10To11Running_def
  by (rule reachable_tracked [of app])
    (rule reachable.call, rule reachable.call, rule reachable.start, rule boot_app_slides(1),
     rule boot_app_slides(2))

text \<open>
  C4. A start of the swoop of slide 2 to 3 does not cancel the timers of its earlier
  start. \<open>animateSwoopTransition\<close> keeps no handle of its two timers; what guards it is
  \<open>if (this.isAnimating) return\<close>, and the cancel operations that an interrupting
  \<open>goToSlide\<close> runs reset \<open>isAnimating\<close>. On the settled slide of index 1, \<open>next()\<close>,
  \<open>prev()\<close> and \<open>next()\<close> in a row: the swoop starts a second time while the timers
  of its first start (handles 7 and 8) are pending, together with those of the second
  (11 and 12). Both generations fire: \<open>slidechange\<close> is dispatched twice with index 2,
  and when every timer has fired the engine is idle and all twelve slides are hidden.
\<close>

theorem two_swoop_generations_live:
  "map_option (map tid \<circ> live Swoop) nextPrevNext = Some [7, 8, 11, 12] \<and>
   map_option (\<lambda>s. (isTransitioning s, timers s, hidden s, events s))
     (Option.bind nextPrevNext (settle app 100))
     = Some (False, [], replicate 12 True, [0, 1, 2, 2, 1])"
  unfolding nextPrevNext_def nextPrev_def by code_simp

text \<open>
  What the other five sequences do, the ones that record their handles (timeline
  step-reveal, swoop of slide 10 to 11, expansion of slide 12, split, reverse split): a
  start cancels every pending timer of that sequence before it sets new ones, so no timer
  of the sequence that was pending before the start is pending after it. When slide 10
  lacks its elements the timeline's start returns before it cancels or sets a timer. A
  call of \<open>goToSlide\<close> that interrupts a transition cancels the pending timers of all
  five. The swoop forward and back return at once while \<open>isAnimating\<close> is set.
\<close>

lemma restart_cancels_own_timers:
  assumes "tracked s"
  shows "(timelineDom c \<longrightarrow>
            set (live Timeline s) \<inter> set (timers (animateTimelineStepByStep c s)) = {}) \<and>
         (\<not> timelineDom c \<longrightarrow> timers (animateTimelineStepByStep c s) = timers s) \<and>
         set (live Swoop10To11 s) \<inter>
           set (timers (animateSlide10To11Swoop c prevSlide nextSlide k s)) = {} \<and>
         set (live Expand s) \<inter> set (timers (animateSlide12Expansion s)) = {} \<and>
         set (live Split s) \<inter>
           set (timers (animateSlide11To12Split c prevSlide nextSlide k s)) = {} \<and>
         set (live ReverseSplit s) \<inter>
           set (timers (animateSlide12To11Reverse prevSlide nextSlide k s)) = {} \<and>
         (isAnimating s \<longrightarrow> animateSwoopTransition prevSlide nextSlide k s = s \<and>
                               animateReverseSwoopTransition prevSlide nextSlide k s = s) \<and>
         (lineAnimator s \<and> isTransitioning s \<and> index \<noteq> int (currentSlide s) \<and>
          q \<in> {Timeline, Swoop10To11, Split, ReverseSplit, Expand} \<longrightarrow>
            set (live q s) \<inter> set (timers (goToSlide c index animate s)) = {})"
proof -
  have "\<not> timelineDom c \<longrightarrow> timers (animateTimelineStepByStep c s) = timers s"
    by (simp add: animateTimelineStepByStep_def)
  moreover have "isAnimating s \<longrightarrow> animateSwoopTransition prevSlide nextSlide k s = s \<and>
      animateReverseSwoopTransition prevSlide nextSlide k s = s"
    by (simp add: animateSwoopTransition_def animateReverseSwoopTransition_def)
  moreover have "lineAnimator s \<and> isTransitioning s \<and> index \<noteq> int (currentSlide s) \<and>
      q \<in> {Timeline, Swoop10To11, Split, ReverseSplit, Expand} \<longrightarrow>
      set (live q s) \<inter> set (timers (goToSlide c index animate s)) = {}"
    using assms goToSlide_interrupt_fresh [of s index q c animate]
    by (auto intro!: fresh_disjoint)
  ultimately show ?thesis
    using assms
    by (simp add: fresh_disjoint fresh_animateTimelineStepByStep fresh_animateSlide10To11Swoop
        fresh_animateSlide12Expansion fresh_animateSlide11To12Split
        fresh_animateSlide12To11Reverse)
qed

lemma restart_cancels_own_timers_example:
  "tracked timelineRunning \<and> timelineDom app \<and>
   length (live Timeline timelineRunning) = 18 \<and>
   set (live Timeline timelineRunning) \<inter>
     set (timers (animateTimelineStepByStep app timelineRunning)) = {} \<and>
   length (live Timeline (animateTimelineStepByStep app timelineRunning)) = 18 \<and>
   \<not> timelineDom (app\<lparr>timelineDom := False\<rparr>) \<and>
   timers (animateTimelineStepByStep (app\<lparr>timelineDom := False\<rparr>) timelineRunning)
     = timers timelineRunning \<and>
   lineAnimator timelineRunning \<and> isTransitioning timelineRunning \<and>
   3 \<noteq> int (currentSlide timelineRunning) \<and>
   set (live Timeline timelineRunning) \<inter> set (timers (goToSlide app 3 True timelineRunning)) = {} \<and>
   tracked swoop10To11Running \<and> isAnimating swoop10To11Running \<and>
   animateSwoopTransition 1 2 2 swoop10To11Running = swoop10To11Running \<and>
   animateReverseSwoopTransition 2 1 1 swoop10To11Running = swoop10To11Running"
proof -
  note th = restart_cancels_own_timers [OF timelineRunning_tracked]
  have d: "timelineDom app" "\<not> timelineDom (app\<lparr>timelineDom := False\<rparr>)"
    by (simp_all add: app_def)
  have l: "length (live Timeline timelineRunning) = 18"
    "length (live Timeline (animateTimelineStepByStep app timelineRunning)) = 18"
    "lineAnimator timelineRunning" "isTransitioning timelineRunning"
    "3 \<noteq> int (currentSlide timelineRunning)"
    unfolding timelineRunning_def by code_simp+
  have a: "isAnimating swoop10To11Running"
    unfolding swoop10To11Running_def by code_simp
  have 1: "set (live Timeline timelineRunning) \<inter>
     set (timers (animateTimelineStepByStep app timelineRunning)) = {}"
    using th [of app, THEN conjunct1] d(1) by (rule mp)
  have 2: "timers (animateTimelineStepByStep (app\<lparr>timelineDom := False\<rparr>) timelineRunning)
     = timers timelineRunning"
    using th [of "app\<lparr>timelineDom := False\<rparr>", THEN conjunct2, THEN conjunct1] d(2)
    by (rule mp)
  have q: "Timeline \<in> {Timeline, Swoop10To11, Split, ReverseSplit, Expand}" by simp
  have 3: "set (live Timeline timelineRunning) \<inter>
     set (timers (goToSlide app 3 True timelineRunning)) = {}"
    using th [of app _ _ _ 3 Timeline True] l(3,4,5) q by (simp only: simp_thms)
  have 4: "animateSwoopTransition 1 2 2 swoop10To11Running = swoop10To11Running \<and>
     animateReverseSwoopTransition 2 1 1 swoop10To11Running = swoop10To11Running"
    using restart_cancels_own_timers [OF swoop10To11Running_tracked, of app 1 2 2] a
      restart_cancels_own_timers [OF swoop10To11Running_tracked, of app 2 1 1]
    by (simp only: simp_thms)
  show ?thesis
    using timelineRunning_tracked swoop10To11Running_tracked d l a 1 2 3 4
    by (simp only: simp_thms)
qed

text \<open>
  C3. The start of a sequence does not cancel the timers of the swoop of slide 2 to 3.
  On the settled slide of index 1, \<open>next()\<close> starts the swoop, and a jump to index 9 at
  once runs the block of \<open>goToSlide\<close> commented "Cancel all line animations" and then
  starts the timeline's step-reveal. Neither reaches the swoop, whose handles are recorded
  nowhere: its two timers are pending beside the timeline's eighteen. The swoop's
  callback then runs the transition to slide 2 that the jump had replaced. When every
  timer has fired the engine is idle on index 2, the only visible slide is the one of
  index 9, and \<open>slidechange\<close> was dispatched for 9 and after it for 2.
\<close>

theorem swoop_and_timeline_both_live:
  "map_option (map act \<circ> live Swoop) nextThenJump = Some [SwoopOnComplete 1 2 2, SwoopCleanup] \<and>
   map_option (length \<circ> live Timeline) nextThenJump = Some 18 \<and>
   map_option (\<lambda>s. (isTransitioning s, timers s, currentSlide s, hidden s, events s))
     (Option.bind nextThenJump (settle app 100))
     = Some (False, [], 2, (replicate 12 True)[9 := False], [0, 1, 9, 2])"
  unfolding nextThenJump_def by code_simp

lemma goToSlide_9_10:
  assumes "\<not> isTransitioning s" "currentSlide s = 9" "lineAnimator s" "10 < length (hidden s)"
  shows "goToSlide c 10 True s =
           (animateSlide10To11Swoop c 9 10 10
              (cancelTimelineAnimation ((resetSlideAnimations 9 s)\<lparr>isTransitioning := True\<rparr>)))
           \<lparr>currentSlide := 10\<rparr>"
  using assms
  by (simp add: goToSlide_def boundsCheck_def navigate_def leaveSlide_def
      resetSlideAnimations_def Let_def)

lemma goToSlide_9_10_fresh_Timeline:
  assumes "tracked s" "\<not> isTransitioning s" "currentSlide s = 9" "lineAnimator s"
    "10 < length (hidden s)"
  shows "fresh Timeline (nextId s) (goToSlide c 10 True s)"
proof -
  let ?s1 = "(resetSlideAnimations 9 s)\<lparr>isTransitioning := True\<rparr>"
  have "tracked ?s1" "nextId ?s1 = nextId s"
    using assms(1) by (simp_all add: resetSlideAnimations_def)
  then have "fresh Timeline (nextId s) (cancelTimelineAnimation ?s1)"
    using cancelTimelineAnimation_fresh [of ?s1] by simp
  then show ?thesis
    using assms(2-) by (simp add: goToSlide_9_10 fresh_keep_la)
qed

lemma timelineIdle_facts:
  "tracked timelineIdle" "\<not> isTransitioning timelineIdle" "currentSlide timelineIdle = 9"
  "lineAnimator timelineIdle" "10 < length (hidden timelineIdle)"
  "length (live Timeline timelineIdle) = 16"
  unfolding timelineIdle_def timelineRunning_def by code_simp+

text \<open>
  What the starts of the other sequences cancel. The split (slide 11 to 12) cancels the
  pending timers of the swoop of slide 10 to 11, of the reverse split and of the expansion
  before it sets its own, and the engine's branch that starts it cancels the timeline's as
  well; the reverse split cancels those of the expansion and of the split; the engine
  cancels the timeline's timers before it starts the swoop of slide 10 to 11. The swoop
  forward and back remove no timer.
\<close>

lemma split_and_reverse_cancel_others:
  assumes "tracked s"
  shows "set (live Swoop10To11 s) \<inter>
           set (timers (animateSlide11To12Split c prevSlide nextSlide k s)) = {} \<and>
         set (live ReverseSplit s) \<inter>
           set (timers (animateSlide11To12Split c prevSlide nextSlide k s)) = {} \<and>
         set (live Expand s) \<inter>
           set (timers (animateSlide11To12Split c prevSlide nextSlide k s)) = {} \<and>
         set (live Timeline s) \<inter> set (timers (splitBranch c prevSlide k s)) = {} \<and>
         set (live Expand s) \<inter>
           set (timers (animateSlide12To11Reverse prevSlide nextSlide k s)) = {} \<and>
         set (live Split s) \<inter>
           set (timers (animateSlide12To11Reverse prevSlide nextSlide k s)) = {} \<and>
         (\<not> isTransitioning s \<and> currentSlide s = 9 \<and> lineAnimator s \<and>
          10 < length (hidden s) \<longrightarrow>
            set (live Timeline s) \<inter> set (timers (goToSlide c 10 True s)) = {}) \<and>
         set (timers s) \<subseteq> set (timers (animateSwoopTransition prevSlide nextSlide k s)) \<and>
         set (timers s) \<subseteq> set (timers (animateReverseSwoopTransition prevSlide nextSlide k s))"
proof -
  have "set (timers s) \<subseteq> set (timers (animateSwoopTransition prevSlide nextSlide k s))"
    "set (timers s) \<subseteq> set (timers (animateReverseSwoopTransition prevSlide nextSlide k s))"
    by (auto simp: animateSwoopTransition_def animateReverseSwoopTransition_def Let_def
        setTimeout_def setPath_def)
  moreover have "\<not> isTransitioning s \<and> currentSlide s = 9 \<and> lineAnimator s \<and>
      10 < length (hidden s) \<longrightarrow>
      set (live Timeline s) \<inter> set (timers (goToSlide c 10 True s)) = {}"
    using assms goToSlide_9_10_fresh_Timeline [of s c] by (auto intro!: fresh_disjoint)
  ultimately show ?thesis
    using assms
    by (simp add: fresh_disjoint fresh_animateSlide11To12Split fresh_animateSlide12To11Reverse
        splitBranch_fresh_Timeline)
qed

lemma split_and_reverse_cancel_others_example:
  "tracked swoop10To11Running \<and>
   length (live Swoop10To11 swoop10To11Running) = 3 \<and>
   set (live Swoop10To11 swoop10To11Running) \<inter>
     set (timers (animateSlide11To12Split app 10 11 11 swoop10To11Running)) = {} \<and>
   tracked timelineIdle \<and> \<not> isTransitioning timelineIdle \<and> currentSlide timelineIdle = 9 \<and>
   lineAnimator timelineIdle \<and> 10 < length (hidden timelineIdle) \<and>
   length (live Timeline timelineIdle) = 16 \<and>
   set (live Timeline timelineIdle) \<inter> set (timers (goToSlide app 10 True timelineIdle)) = {}"
proof -
  have l: "length (live Swoop10To11 swoop10To11Running) = 3"
    unfolding swoop10To11Running_def by code_simp
  have 1: "set (live Swoop10To11 swoop10To11Running) \<inter>
     set (timers (animateSlide11To12Split app 10 11 11 swoop10To11Running)) = {}"
    by (rule split_and_reverse_cancel_others [OF swoop10To11Running_tracked, THEN conjunct1])
  have 2: "set (live Timeline timelineIdle) \<inter>
     set (timers (goToSlide app 10 True timelineIdle)) = {}"
    using split_and_reverse_cancel_others [OF timelineIdle_facts(1), of app]
      timelineIdle_facts(2-5)
    by (simp only: simp_thms)
  show ?thesis
    using swoop10To11Running_tracked timelineIdle_facts l 1 2 by (simp only: simp_thms)
qed

subsection \<open>The generic transition\<close>

text \<open>
  C2, as stated: for every configured duration, whichever of the completion timer and the
  safety timer fires first resolves the transition and the second has no effect. With a
  duration of \<open>2^31 - 300\<close> ms the delay \<open>duration + 500\<close> of the safety timer does not
  fit the platform's signed 32 bits and the timer is due at once. On a jump from the first
  slide to index 3 the safety callback fires first, at time 0: the promise is resolved, the
  engine is idle and \<open>slidechange\<close> is dispatched for 3, while the completion timer is
  still pending and the source slide 0 still visible. The completion timer fires second,
  \<open>duration\<close> ms later, and has an effect: it hides the source.
\<close>

theorem safety_first_on_overflow:
  "map_option (map act \<circ> timers) (advance longFade 0 100 longFadeJump)
     = Some [Reveal 0 1, Reveal 3 1, TransEnd 0 5 0] \<and>
   map_option promises (advance longFade 0 100 longFadeJump) = Some [] \<and>
   map_option isTransitioning (advance longFade 0 100 longFadeJump) = Some False \<and>
   map_option events (advance longFade 0 100 longFadeJump) = Some [0, 3] \<and>
   map_option hidden (advance longFade 0 100 longFadeJump)
     = Some ((replicate 12 True)[0 := False, 3 := False]) \<and>
   map_option hidden (settle longFade 100 longFadeJump) = Some ((replicate 12 True)[3 := False]) \<and>
   map_option events (settle longFade 100 longFadeJump) = Some [0, 3] \<and>
   map_option now (settle longFade 100 longFadeJump) = Some 2147483348"
  by code_simp

text \<open>
  The two callbacks of \<open>transition\<close>. The safety callback is \<open>resolve()\<close> alone: on a
  pending promise it ends the transition and dispatches \<open>slidechange\<close>, and it hides no
  slide. The completion callback hides the source whether or not the promise is still
  pending, and on a settled promise it dispatches nothing.
\<close>

lemma safety_callback_resolves:
  assumes "map_of (promises s) p = Some k"
  shows "hidden (runAction c (Safety p) s) = hidden s \<and>
         \<not> isTransitioning (runAction c (Safety p) s) \<and>
         currentSlide (runAction c (Safety p) s) = k \<and>
         events (runAction c (Safety p) s) = events s @ [k] \<and>
         timers (runAction c (Safety p) s) = timers s"
  using assms by (simp add: resolve_def afterSlideChange_def)

lemma completion_callback_hides_source:
  assumes "fromSlide < length (hidden s)"
  shows "hidden (runAction c (TransEnd p sid fromSlide) s) ! fromSlide"
  using assms
  by (simp add: resolve_def afterSlideChange_def setHidden_def clearTimeout_def
      split: option.splits)

lemma completion_callback_settled:
  assumes "map_of (promises s) p = None"
  shows "events (runAction c (TransEnd p sid fromSlide) s) = events s \<and>
         isTransitioning (runAction c (TransEnd p sid fromSlide) s) = isTransitioning s"
  using assms by (simp add: resolve_def setHidden_def clearTimeout_def)

text \<open>
  First the case of a request that arrives while the engine is idle and only inert timers
  are pending.
\<close>

lemma timerDelay_small: "d < 2147483648 \<Longrightarrow> timerDelay d = d"
  by (simp add: timerDelay_def)

lemma inert_runAction:
  assumes "inert a"
  shows "hidden (runAction c a s) = hidden s"
    and "promises (runAction c a s) = promises s"
    and "events (runAction c a s) = events s"
    and "timers (runAction c a s) = timers s"
    and "currentSlide (runAction c a s) = currentSlide s"
    and "isTransitioning (runAction c a s) = isTransitioning s"
  using assms by (cases a; simp add: setPath_def)+

lemma earliest_None: "earliest ts = None \<longleftrightarrow> ts = []"
  by (cases ts) (auto split: option.splits)

lemma length_filter_mem:
  "t \<in> set ts \<Longrightarrow> length (filter (\<lambda>u. tid u \<noteq> tid t) ts) < length ts"
  by (induction ts) (auto simp: less_Suc_eq_le)

lemma genericInFlight_fire:
  assumes inv: "genericInFlight c fr to p sid t0 ev0 s"
    and e: "earliest (timers s) = Some t"
  shows "genericInFlight c fr to p sid t0 ev0 (fire c t s)"
    and "length (timers (fire c t s)) < length (timers s)"
proof -
  let ?P = "Timer (Suc sid) (t0 + duration c) (TransEnd p sid fr)"
  let ?S = "Timer sid (t0 + (duration c + 500)) (Safety p)"
  have mem: "t \<in> set (timers s)" using e by (rule earliest_mem)
  from inv mem consider
      (inert) "inert (act t)" "tid t < sid"
    | (safety) "t = ?S"
    | (primary) "t = ?P"
    by (auto simp: genericInFlight_def)
  then have "genericInFlight c fr to p sid t0 ev0 (fire c t s) \<and>
      length (timers (fire c t s)) < length (timers s)"
  proof cases
    case inert
    have tm: "timers (fire c t s) = filter (\<lambda>u. tid u \<noteq> tid t) (timers s)"
      using inert by (simp add: fire_def inert_runAction)
    have "genericInFlight c fr to p sid t0 ev0 (fire c t s)"
      using inv inert unfolding genericInFlight_def
      by (auto simp add: fire_def inert_runAction list_all_iff)
    then show ?thesis using tm mem by (simp add: length_filter_mem)
  next
    case safety
    have "\<not> list_all (\<lambda>t. inert (act t)) (timers s)"
      using mem safety by (force simp: list_all_iff)
    then have "?P \<in> set (timers s)" using inv by (auto simp: genericInFlight_def)
    then have "due t \<le> due ?P" using e by (rule earliest_least [rotated])
    then show ?thesis using safety by simp
  next
    case primary
    have "\<not> list_all (\<lambda>t. inert (act t)) (timers s)"
      using mem primary by (force simp: list_all_iff)
    then have pr: "promises s = [(p, to)]" "events s = ev0"
      using inv by (auto simp: genericInFlight_def)
    have tm: "timers (fire c t s) =
        filter (\<lambda>u. tid u \<noteq> sid) (filter (\<lambda>u. tid u \<noteq> tid t) (timers s))"
      using primary pr
      by (simp add: fire_def resolve_def afterSlideChange_def setHidden_def clearTimeout_def)
    have "length (timers (fire c t s)) \<le> length (filter (\<lambda>u. tid u \<noteq> tid t) (timers s))"
      unfolding tm by (rule length_filter_le)
    also have "\<dots> < length (timers s)"
      using mem by (rule length_filter_mem)
    finally have len: "length (timers (fire c t s)) < length (timers s)" .
    have "genericInFlight c fr to p sid t0 ev0 (fire c t s)"
      using inv primary pr unfolding genericInFlight_def
      by (auto simp add: fire_def resolve_def afterSlideChange_def setHidden_def clearTimeout_def
          Let_def list_all_iff)
    then show ?thesis using len by simp
  qed
  then show "genericInFlight c fr to p sid t0 ev0 (fire c t s)"
    and "length (timers (fire c t s)) < length (timers s)" by simp_all
qed

lemma genericInFlight_passTime [simp]:
  "genericInFlight c fr to p sid t0 ev0 (passTime T s) = genericInFlight c fr to p sid t0 ev0 s"
  by (simp add: genericInFlight_def passTime_def)

lemma timers_passTime [simp]: "timers (passTime T s) = timers s"
  by (simp add: passTime_def)

lemma genericInFlight_advance:
  "genericInFlight c fr to p sid t0 ev0 s \<Longrightarrow> length (timers s) \<le> n \<Longrightarrow>
   \<exists>s'. advance c T n s = Some s' \<and> genericInFlight c fr to p sid t0 ev0 s' \<and>
        list_all (\<lambda>t. T < due t) (timers s')"
proof (induction n arbitrary: s)
  case 0
  then show ?case by simp
next
  case (Suc n)
  show ?case
  proof (cases "earliest (timers s)")
    case None
    then show ?thesis using Suc.prems by (simp add: earliest_None)
  next
    case (Some t)
    show ?thesis
    proof (cases "due t \<le> T")
      case True
      have "genericInFlight c fr to p sid t0 ev0 (fire c t s)"
        and "length (timers (fire c t s)) \<le> n"
        using genericInFlight_fire [OF Suc.prems(1) Some] Suc.prems(2) by simp_all
      then show ?thesis using Suc.IH Some True by simp
    next
      case False
      have "T < due u" if "u \<in> set (timers s)" for u
        using earliest_least [OF Some that] False by simp
      then show ?thesis using Some False Suc.prems(1) by (simp add: list_all_iff)
    qed
  qed
qed

lemma genericInFlight_done:
  assumes "genericInFlight c fr to p sid t0 ev0 s" "list_all (\<lambda>t. T < due t) (timers s)"
    "t0 + duration c \<le> T"
  shows "hidden s ! fr \<and> \<not> hidden s ! to \<and> \<not> isTransitioning s \<and> currentSlide s = to \<and>
         events s = ev0 @ [to] \<and> promises s = [] \<and> list_all (\<lambda>t. inert (act t)) (timers s)"
  using assms by (fastforce simp: genericInFlight_def list_all_iff)

lemma engineView_fields [simp]:
  "engineView (animIn_update f5 s) = engineView s"
  "engineView (la_currentSlide_update f6 s) = engineView s"
  "engineView (isAnimating_update f2 s) = engineView s"
  "engineView (onContentReadyCallback_update f7 s) = engineView s"
  "engineView (resizeTimeout_update f8 s) = engineView s"
  "engineView (pathD_update f9 s) = engineView s"
  "engineView (pathTransition_update f10 s) = engineView s"
  "engineView (timelineTimeouts_update g1 s) = engineView s"
  "engineView (slide12ExpansionTimeout_update g2 s) = engineView s"
  "engineView (slide12SplitTimeouts_update g3 s) = engineView s"
  "engineView (slide12ReverseTimeouts_update g4 s) = engineView s"
  "engineView (slide10To11Timeouts_update g5 s) = engineView s"
  "engineView (timers_update g6 s) = engineView s"
  "engineView (nextId_update g7 s) = engineView s"
  by (simp_all add: engineView_def)

lemma engineView_timers [simp]:
  "engineView (setTimeout a d s) = engineView s"
  "engineView (clearTimeout j s) = engineView s"
  "engineView (clearTimeouts ids s) = engineView s"
  "engineView (setPath pd tr s) = engineView s"
  by (simp_all add: setTimeout_def clearTimeout_def clearTimeouts_def setPath_def)

lemma engineView_cancel [simp]:
  "engineView (cancelTimelineAnimation s) = engineView s"
  "engineView (cancelSlide10To11Swoop s) = engineView s"
  "engineView (cancelSlide12Expansion s) = engineView s"
  "engineView (clearSplitTimeouts s) = engineView s"
  "engineView (clearReverseTimeouts s) = engineView s"
  "engineView (cancelSlide12Split s) = engineView s"
  by (simp_all add: cancelTimelineAnimation_def cancelSlide10To11Swoop_def
      cancelSlide12Expansion_def clearSplitTimeouts_def clearReverseTimeouts_def
      cancelSlide12Split_def split: option.splits)

lemma engineView_pushTimeline [simp]: "engineView (pushTimeline a d s) = engineView s"
  by (simp add: pushTimeline_def)

lemma engineView_scheduleSegments [simp]:
  "engineView (snd (scheduleSegments segs i d s)) = engineView s"
  by (induction segs i d s rule: scheduleSegments.induct) simp_all

lemma engineView_animateTimelineStepByStep [simp]:
  "engineView (animateTimelineStepByStep c s) = engineView s"
  by (simp add: animateTimelineStepByStep_def Let_def split_beta)

lemma engineView_animateSlide12Expansion [simp]:
  "engineView (animateSlide12Expansion s) = engineView s"
  by (simp add: animateSlide12Expansion_def Let_def)

lemma engineView_updatePath [simp]: "engineView (updatePath c i a s) = engineView s"
  by (simp add: updatePath_def Let_def split: option.splits)

lemma engineView_revealTimers [simp]: "engineView (revealTimers c sl i ds s) = engineView s"
  by (induction ds arbitrary: i s) simp_all

lemma engineView_triggerSlideAnimations [simp]:
  "engineView (triggerSlideAnimations c sl s) = engineView s"
  by (simp add: triggerSlideAnimations_def)

lemma engineView_leaveSlide [simp]: "engineView (leaveSlide i s) = engineView s"
  by (simp add: leaveSlide_def resetSlideAnimations_def Let_def)

text \<open>These operations keep the queue inert.\<close>

lemma inertQueue_fields [simp]:
  "inertQueue (isTransitioning_update f1 s) = inertQueue s"
  "inertQueue (isAnimating_update f2 s) = inertQueue s"
  "inertQueue (animIn_update f5 s) = inertQueue s"
  "inertQueue (la_currentSlide_update f6 s) = inertQueue s"
  "inertQueue (pathD_update f9 s) = inertQueue s"
  "inertQueue (pathTransition_update f10 s) = inertQueue s"
  "inertQueue (timelineTimeouts_update g1 s) = inertQueue s"
  "inertQueue (slide12ExpansionTimeout_update g2 s) = inertQueue s"
  "inertQueue (slide12SplitTimeouts_update g3 s) = inertQueue s"
  "inertQueue (slide12ReverseTimeouts_update g4 s) = inertQueue s"
  "inertQueue (slide10To11Timeouts_update g5 s) = inertQueue s"
  by (simp_all add: inertQueue_def)

lemma inertQueue_setTimeout: "inertQueue s \<Longrightarrow> inert a \<Longrightarrow> inertQueue (setTimeout a d s)"
  by (auto simp: inertQueue_def setTimeout_def list_all_iff less_Suc_eq)

lemma inertQueue_clear:
  "inertQueue s \<Longrightarrow> inertQueue (clearTimeout j s)"
  "inertQueue s \<Longrightarrow> inertQueue (clearTimeouts ids s)"
  by (auto simp: inertQueue_def clearTimeout_def clearTimeouts_def list_all_iff)

lemma inertQueue_setPath [simp]: "inertQueue (setPath pd tr s) = inertQueue s"
  by (simp add: setPath_def)

lemma inertQueue_cancel:
  "inertQueue s \<Longrightarrow> inertQueue (cancelTimelineAnimation s)"
  "inertQueue s \<Longrightarrow> inertQueue (cancelSlide12Expansion s)"
  "inertQueue s \<Longrightarrow> inertQueue (cancelSlide12Split s)"
  by (simp_all add: cancelTimelineAnimation_def cancelSlide12Expansion_def
      clearSplitTimeouts_def clearReverseTimeouts_def cancelSlide12Split_def inertQueue_clear
      split: option.splits)

lemma inertQueue_pushTimeline:
  "inertQueue s \<Longrightarrow> inert a \<Longrightarrow> inertQueue (pushTimeline a d s)"
  by (simp add: pushTimeline_def inertQueue_setTimeout)

lemma inertQueue_scheduleSegments:
  "inertQueue s \<Longrightarrow> inertQueue (snd (scheduleSegments segs i d s))"
  by (induction segs i d s rule: scheduleSegments.induct) (simp_all add: inertQueue_pushTimeline)

lemma inertQueue_animateTimelineStepByStep:
  "inertQueue s \<Longrightarrow> inertQueue (animateTimelineStepByStep c s)"
  by (simp add: animateTimelineStepByStep_def Let_def split_beta inertQueue_pushTimeline
      inertQueue_scheduleSegments inertQueue_cancel)

lemma inertQueue_animateSlide12Expansion:
  "inertQueue s \<Longrightarrow> inertQueue (animateSlide12Expansion s)"
  by (simp add: animateSlide12Expansion_def Let_def inertQueue_setTimeout inertQueue_cancel)

lemma inertQueue_updatePath: "inertQueue s \<Longrightarrow> inertQueue (updatePath c i a s)"
  by (simp add: updatePath_def Let_def inertQueue_cancel inertQueue_animateTimelineStepByStep
      inertQueue_animateSlide12Expansion split: option.splits)

lemma inertQueue_revealTimers: "inertQueue s \<Longrightarrow> inertQueue (revealTimers c sl i ds s)"
  by (induction ds arbitrary: i s) (simp_all add: inertQueue_setTimeout)

lemma inertQueue_triggerSlideAnimations:
  "inertQueue s \<Longrightarrow> inertQueue (triggerSlideAnimations c sl s)"
  by (simp add: triggerSlideAnimations_def inertQueue_revealTimers)

lemma inertQueue_leaveSlide: "inertQueue s \<Longrightarrow> inertQueue (leaveSlide i s)"
  by (simp add: leaveSlide_def resetSlideAnimations_def Let_def inertQueue_cancel)

text \<open>\<open>transition\<close> on an inert queue starts the in-flight phase.\<close>

lemma transition_inFlight:
  assumes "inertQueue s" "promises s = []" "fr < length (hidden s)" "to < length (hidden s)"
    "fr \<noteq> to" "duration c + 500 < 2147483648"
  shows "genericInFlight c fr to (nextPromise s) (nextId s) (now s) (events s)
           ((transition c fr to to s)\<lparr>currentSlide := to\<rparr>)"
proof -
  have d: "timerDelay (duration c + 500) = duration c + 500" "timerDelay (duration c) = duration c"
    using assms(6) by (simp_all add: timerDelay_small)
  show ?thesis
    using assms(1-5)
    by (auto simp add: genericInFlight_def transition_def setTimeout_def d setHidden_def Let_def
        inertQueue_def list_all_iff)
qed

lemma goToSlide_generic:
  assumes "\<not> isTransitioning s" "i < length (hidden s)" "i \<noteq> currentSlide s"
    "transType c \<noteq> NoneT" "lineAnimator s \<longrightarrow> \<not> specialPair (currentSlide s) i"
  shows "goToSlide c (int i) True s =
           (transition c (currentSlide s) i i
              (let s1 = (leaveSlide i s)\<lparr>isTransitioning := True\<rparr>;
                   s2 = (if lineAnimator s then updatePath c i True s1 else s1)
               in if animationsEnabled c then triggerSlideAnimations c i s2 else s2))
           \<lparr>currentSlide := i\<rparr>"
proof -
  have v: "engineView (leaveSlide i s) = engineView s" by simp
  then have l: "currentSlide (leaveSlide i s) = currentSlide s"
    "lineAnimator (leaveSlide i s) = lineAnimator s"
    by (simp_all add: engineView_def)
  show ?thesis
    using assms l
    by (auto simp add: goToSlide_def boundsCheck_def navigate_def genericBranch_def Let_def
        specialPair_def)
qed

lemma resolve_settled: "resolve c p (resolve c p s) = resolve c p s"
proof (cases "map_of (promises s) p")
  case None
  then show ?thesis by (simp add: resolve_def)
next
  case (Some index)
  have "map_of (filter (\<lambda>q. fst q \<noteq> p) ps) p = None" for ps :: "(nat \<times> nat) list"
    by (induction ps) auto
  then show ?thesis
    using Some by (simp add: resolve_def afterSlideChange_def)
qed


lemma boot_app_facts:
  "inertQueue (boot app)" "promises (boot app) = []" "\<not> isTransitioning (boot app)"
  "3 < length (hidden (boot app))" "currentSlide (boot app) = 0" "lineAnimator (boot app)"
  "events (boot app) = [0]" "now (boot app) = 0" "length (timers (boot app)) = 2"
  by code_simp+

text \<open>
  A generic transition requested while the engine is idle, with no pending promise and
  only inert timers pending (content reveal, timeline drawing, expansion), with
  \<open>duration + 500\<close> below \<open>2^31\<close>, and with no further call before it completes: the
  destination's hidden flag is cleared by the call itself. The code has no completion
  hook of the effect; its completion path is a timer at \<open>duration\<close>, set after the
  safety timer at \<open>duration + 500\<close>. Whenever the clock has reached the request time
  plus \<open>duration\<close>, so also at \<open>duration + 500\<close>, the loop has run that far with finite
  fuel and the source slide is hidden, the destination visible, the engine idle on the
  new index, \<open>slidechange\<close> dispatched exactly once, and neither the completion timer nor
  the safety timer is pending: the completion timer fired first and cleared the safety
  timer.
\<close>

lemma generic_transition_bounded:
  assumes "inertQueue s" "promises s = []" "\<not> isTransitioning s"
    and "i < length (hidden s)" "currentSlide s < length (hidden s)" "i \<noteq> currentSlide s"
    and "transType c \<noteq> NoneT" "lineAnimator s \<longrightarrow> \<not> specialPair (currentSlide s) i"
    and "now s + duration c \<le> T" "duration c + 500 < 2147483648"
  shows "\<not> hidden (goToSlide c (int i) True s) ! i \<and>
         (\<exists>n s'. advance c T n (goToSlide c (int i) True s) = Some s' \<and>
            hidden s' ! currentSlide s \<and> \<not> hidden s' ! i \<and>
            \<not> isTransitioning s' \<and> currentSlide s' = i \<and>
            events s' = events s @ [i] \<and> list_all (\<lambda>t. inert (act t)) (timers s'))"
proof -
  define s1 where "s1 = (leaveSlide i s)\<lparr>isTransitioning := True\<rparr>"
  define s2 where "s2 = (if lineAnimator s then updatePath c i True s1 else s1)"
  define s3 where "s3 = (if animationsEnabled c then triggerSlideAnimations c i s2 else s2)"
  have g: "goToSlide c (int i) True s = (transition c (currentSlide s) i i s3)\<lparr>currentSlide := i\<rparr>"
    using assms(3,4,6,7,8) by (simp add: goToSlide_generic s1_def s2_def s3_def Let_def)
  have "inertQueue s1" using assms(1) by (simp add: s1_def inertQueue_leaveSlide)
  then have "inertQueue s2" by (simp add: s2_def inertQueue_updatePath)
  then have q: "inertQueue s3" by (simp add: s3_def inertQueue_triggerSlideAnimations)
  have "engineView s1 = engineView (s\<lparr>isTransitioning := True\<rparr>)"
    using engineView_leaveSlide [of i s] by (simp add: s1_def engineView_def)
  then have "engineView s2 = engineView (s\<lparr>isTransitioning := True\<rparr>)" by (simp add: s2_def)
  then have "engineView s3 = engineView (s\<lparr>isTransitioning := True\<rparr>)" by (simp add: s3_def)
  then have v: "hidden s3 = hidden s" "promises s3 = promises s" "events s3 = events s"
    "now s3 = now s" "nextPromise s3 = nextPromise s"
    by (simp_all add: engineView_def)
  have inv: "genericInFlight c (currentSlide s) i (nextPromise s) (nextId s3) (now s) (events s)
      (goToSlide c (int i) True s)"
    using transition_inFlight [of s3 "currentSlide s" i c] q assms(2,4,5,6,10) v
    by (simp add: g)
  obtain s' where adv: "advance c T (length (timers (goToSlide c (int i) True s)))
        (goToSlide c (int i) True s) = Some s'"
    and inv': "genericInFlight c (currentSlide s) i (nextPromise s) (nextId s3) (now s) (events s) s'"
    and late: "list_all (\<lambda>t. T < due t) (timers s')"
    using genericInFlight_advance [OF inv order_refl] by blast
  have fin: "hidden s' ! currentSlide s \<and> \<not> hidden s' ! i \<and> \<not> isTransitioning s' \<and>
      currentSlide s' = i \<and> events s' = events s @ [i] \<and> promises s' = [] \<and>
      list_all (\<lambda>t. inert (act t)) (timers s')"
    using genericInFlight_done [OF inv' late assms(9)] .
  have "\<not> hidden (goToSlide c (int i) True s) ! i"
    using inv by (simp add: genericInFlight_def)
  moreover have "\<exists>n s'. advance c T n (goToSlide c (int i) True s) = Some s' \<and>
      hidden s' ! currentSlide s \<and> \<not> hidden s' ! i \<and> \<not> isTransitioning s' \<and>
      currentSlide s' = i \<and> events s' = events s @ [i] \<and>
      list_all (\<lambda>t. inert (act t)) (timers s')"
    using adv fin by blast
  ultimately show ?thesis by blast
qed


lemma generic_transition_bounded_example:
  "inertQueue (boot app) \<and> length (timers (boot app)) = 2 \<and> promises (boot app) = [] \<and>
   \<not> isTransitioning (boot app) \<and> 3 < length (hidden (boot app)) \<and>
   currentSlide (boot app) = 0 \<and> transType app \<noteq> NoneT \<and> \<not> specialPair 0 3 \<and>
   now (boot app) + duration app \<le> 900 \<and>
   \<not> hidden (goToSlide app 3 True (boot app)) ! 3 \<and>
   (\<exists>n s'. advance app 900 n (goToSlide app 3 True (boot app)) = Some s' \<and>
      hidden s' ! 0 \<and> \<not> hidden s' ! 3 \<and> \<not> isTransitioning s' \<and> currentSlide s' = 3 \<and>
      events s' = [0, 3] \<and> list_all (\<lambda>t. inert (act t)) (timers s'))"
proof -
  have a: "transType app \<noteq> NoneT" "duration app = 400" by (simp_all add: app_def)
  have b: "\<not> specialPair 0 3" by (simp add: specialPair_def)
  have h5: "currentSlide (boot app) < length (hidden (boot app))"
    using boot_app_facts(4,5) by linarith
  have h6: "3 \<noteq> currentSlide (boot app)" using boot_app_facts(5) by simp
  have h8: "lineAnimator (boot app) \<longrightarrow> \<not> specialPair (currentSlide (boot app)) 3"
    using b boot_app_facts(5) by simp
  have h9: "now (boot app) + duration app \<le> 900" using a boot_app_facts(8) by simp
  have h10: "duration app + 500 < 2147483648" using a by simp
  have "\<not> hidden (goToSlide app (int 3) True (boot app)) ! 3 \<and>
     (\<exists>n s'. advance app 900 n (goToSlide app (int 3) True (boot app)) = Some s' \<and>
        hidden s' ! currentSlide (boot app) \<and> \<not> hidden s' ! 3 \<and> \<not> isTransitioning s' \<and>
        currentSlide s' = 3 \<and> events s' = events (boot app) @ [3] \<and>
        list_all (\<lambda>t. inert (act t)) (timers s'))"
    using generic_transition_bounded [OF boot_app_facts(1,2,3,4) h5 h6 a(1) h8 h9 h10]
    by blast
  then show ?thesis
    using boot_app_facts a b h9 by simp
qed

subsection \<open>Every generic transition completes at its duration\<close>

text \<open>
  Now any state, also one in which another transition is running or stale timers are
  pending. The invariant \<open>intact\<close> is kept by every operation of the engine and of the
  line animator: a timer is removed only through a handle that is recorded or captured,
  and a new timer takes the next handle.
\<close>

lemma okH_mono: "okH g n h \<Longrightarrow> n \<le> n' \<Longrightarrow> okH g n' h"
  by (auto simp: okH_def)

lemma okP_mono: "okP g m q \<Longrightarrow> m \<le> m' \<Longrightarrow> okP g m' q"
  by (auto simp: okP_def)

lemma okAct_mono: "okAct g n m a \<Longrightarrow> n \<le> n' \<Longrightarrow> m \<le> m' \<Longrightarrow> okAct g n' m' a"
  by (cases a) (auto intro: okH_mono okP_mono)

lemma intact_fields [simp]:
  "intact g (isTransitioning_update f1 s) = intact g s"
  "intact g (isAnimating_update f2 s) = intact g s"
  "intact g (currentSlide_update f3 s) = intact g s"
  "intact g (animIn_update f5 s) = intact g s"
  "intact g (la_currentSlide_update f6 s) = intact g s"
  "intact g (onContentReadyCallback_update f7 s) = intact g s"
  "intact g (pathD_update f9 s) = intact g s"
  "intact g (pathTransition_update f10 s) = intact g s"
  "intact g (events_update f14 s) = intact g s"
  "intact g (lineAnimator_update f15 s) = intact g s"
  by (simp_all add: intact_def)

lemma intact_setPath [simp]: "intact g (setPath p tr s) = intact g s"
  by (simp add: setPath_def)

lemma intact_setHidden [simp]: "intact g (setHidden i b s) = intact g s"
  by (simp add: setHidden_def intact_def)

lemma kept_not_ok: "intact g s \<Longrightarrow> x \<in> set (keepT g) \<Longrightarrow> \<not> okH g n (tid x)"
  by (auto simp: intact_def okH_def)

lemma kept_pending: "intact g s \<Longrightarrow> x \<in> set (keepT g) \<Longrightarrow> x \<in> set (timers s)"
  by (simp add: intact_def)

lemma intact_setTimeout:
  assumes "intact g s" "okAct g (Suc (nextId s)) (nextPromise s) a"
  shows "intact g (setTimeout a d s)"
proof -
  have m: "okH g (nextId s) h \<Longrightarrow> okH g (Suc (nextId s)) h" for h
    by (erule okH_mono) simp
  have b: "okAct g (nextId s) (nextPromise s) x \<Longrightarrow> okAct g (Suc (nextId s)) (nextPromise s) x" for x
    by (erule okAct_mono) simp_all
  have n: "okH g (Suc (nextId s)) (nextId s)"
    using assms(1) by (simp add: okH_def intact_def)
  show ?thesis
    using assms m b n unfolding intact_def setTimeout_def
    by (auto simp del: okAct.simps)
qed

lemma intact_clearTimeout:
  assumes "intact g s" "okH g (nextId s) h"
  shows "intact g (clearTimeout h s)"
  using assms kept_not_ok [OF assms(1), of _ "nextId s"]
  unfolding intact_def clearTimeout_def by auto

lemma intact_clearTimeouts:
  assumes "intact g s" "\<forall>h \<in> set hs. okH g (nextId s) h"
  shows "intact g (clearTimeouts hs s)"
  using assms kept_not_ok [OF assms(1), of _ "nextId s"]
  unfolding intact_def clearTimeouts_def by auto


lemma kept_promise: "intact g s \<Longrightarrow> e \<in> set (keepP g) \<Longrightarrow> \<not> okP g m (fst e)"
  by (auto simp: intact_def okP_def)

lemma okH_next: "intact g s \<Longrightarrow> okH g (Suc (nextId s)) (nextId s)"
  by (simp add: okH_def intact_def)

lemma intact_push:
  assumes "intact g s" "okAct g (Suc (nextId s)) (nextPromise s) a"
  shows "intact g ((setTimeout a d s)\<lparr>timelineTimeouts := timelineTimeouts s @ [nextId s]\<rparr>)"
    and "intact g ((setTimeout a d s)\<lparr>slide10To11Timeouts := slide10To11Timeouts s @ [nextId s]\<rparr>)"
    and "intact g ((setTimeout a d s)\<lparr>slide12ReverseTimeouts := slide12ReverseTimeouts s @ [nextId s]\<rparr>)"
    and "intact g ((setTimeout a d s)\<lparr>slide12SplitTimeouts := slide12SplitTimeouts s @ [nextId s]\<rparr>)"
    and "intact g ((setTimeout a d s)\<lparr>slide12ExpansionTimeout := Some (nextId s)\<rparr>)"
    and "intact g ((setTimeout a d s)\<lparr>resizeTimeout := Some (nextId s)\<rparr>)"
proof -
  have i: "intact g (setTimeout a d s)" using assms by (rule intact_setTimeout)
  have n: "okH g (nextId (setTimeout a d s)) (nextId s)"
    using okH_next [OF assms(1)] by (simp add: setTimeout_def)
  show "intact g ((setTimeout a d s)\<lparr>timelineTimeouts := timelineTimeouts s @ [nextId s]\<rparr>)"
    using i n unfolding intact_def by (auto simp: setTimeout_def)
  show "intact g ((setTimeout a d s)\<lparr>slide10To11Timeouts := slide10To11Timeouts s @ [nextId s]\<rparr>)"
    using i n unfolding intact_def by (auto simp: setTimeout_def)
  show "intact g ((setTimeout a d s)\<lparr>slide12ReverseTimeouts := slide12ReverseTimeouts s @ [nextId s]\<rparr>)"
    using i n unfolding intact_def by (auto simp: setTimeout_def)
  show "intact g ((setTimeout a d s)\<lparr>slide12SplitTimeouts := slide12SplitTimeouts s @ [nextId s]\<rparr>)"
    using i n unfolding intact_def by (auto simp: setTimeout_def)
  show "intact g ((setTimeout a d s)\<lparr>slide12ExpansionTimeout := Some (nextId s)\<rparr>)"
    using i n unfolding intact_def by (auto simp: setTimeout_def)
  show "intact g ((setTimeout a d s)\<lparr>resizeTimeout := Some (nextId s)\<rparr>)"
    using i n unfolding intact_def by (auto simp: setTimeout_def)
qed

lemma intact_pushTimeline:
  "intact g s \<Longrightarrow> okAct g (Suc (nextId s)) (nextPromise s) a \<Longrightarrow> intact g (pushTimeline a d s)"
  by (simp add: pushTimeline_def intact_push)

lemma intact_push10To11:
  "intact g s \<Longrightarrow> okAct g (Suc (nextId s)) (nextPromise s) a \<Longrightarrow> intact g (push10To11 a d s)"
  by (simp add: push10To11_def intact_push)

lemma intact_pushReverse:
  "intact g s \<Longrightarrow> okAct g (Suc (nextId s)) (nextPromise s) a \<Longrightarrow> intact g (pushReverse a d s)"
  by (simp add: pushReverse_def intact_push)

lemma intact_pushSplit:
  "intact g s \<Longrightarrow> okAct g (Suc (nextId s)) (nextPromise s) a \<Longrightarrow> intact g (pushSplit a d s)"
  by (simp add: pushSplit_def intact_push)

lemma intact_drop:
  assumes "intact g s"
  shows "intact g (s\<lparr>timelineTimeouts := []\<rparr>)"
    and "intact g (s\<lparr>slide10To11Timeouts := []\<rparr>)"
    and "intact g (s\<lparr>slide12ReverseTimeouts := []\<rparr>)"
    and "intact g (s\<lparr>slide12SplitTimeouts := []\<rparr>)"
    and "intact g (s\<lparr>slide12ExpansionTimeout := None\<rparr>)"
  using assms unfolding intact_def by auto

lemma intact_handles:
  assumes "intact g s"
  shows "\<forall>h \<in> set (timelineTimeouts s). okH g (nextId s) h"
    and "\<forall>h \<in> set (slide10To11Timeouts s). okH g (nextId s) h"
    and "\<forall>h \<in> set (slide12SplitTimeouts s). okH g (nextId s) h"
    and "\<forall>h \<in> set (slide12ReverseTimeouts s). okH g (nextId s) h"
    and "slide12ExpansionTimeout s = Some h \<Longrightarrow> okH g (nextId s) h"
    and "resizeTimeout s = Some h \<Longrightarrow> okH g (nextId s) h"
  using assms unfolding intact_def by auto

lemma clear_fields [simp]:
  "timelineTimeouts (clearTimeouts hs s) = timelineTimeouts s"
  "slide10To11Timeouts (clearTimeouts hs s) = slide10To11Timeouts s"
  "slide12SplitTimeouts (clearTimeouts hs s) = slide12SplitTimeouts s"
  "slide12ReverseTimeouts (clearTimeouts hs s) = slide12ReverseTimeouts s"
  "slide12ExpansionTimeout (clearTimeouts hs s) = slide12ExpansionTimeout s"
  "nextId (clearTimeouts hs s) = nextId s"
  "nextId (clearTimeout h s) = nextId s"
  by (simp_all add: clearTimeouts_def clearTimeout_def)

lemma intact_cancelTimelineAnimation: "intact g s \<Longrightarrow> intact g (cancelTimelineAnimation s)"
  by (simp add: cancelTimelineAnimation_def intact_drop intact_clearTimeouts intact_handles)

lemma intact_cancelSlide10To11Swoop: "intact g s \<Longrightarrow> intact g (cancelSlide10To11Swoop s)"
  by (simp add: cancelSlide10To11Swoop_def intact_drop intact_clearTimeouts intact_handles)

lemma intact_cancelSlide12Expansion: "intact g s \<Longrightarrow> intact g (cancelSlide12Expansion s)"
  by (simp add: cancelSlide12Expansion_def intact_drop intact_clearTimeout intact_handles
      split: option.splits)

lemma intact_clearSplitTimeouts: "intact g s \<Longrightarrow> intact g (clearSplitTimeouts s)"
  by (simp add: clearSplitTimeouts_def intact_drop intact_clearTimeouts intact_handles)

lemma intact_clearReverseTimeouts: "intact g s \<Longrightarrow> intact g (clearReverseTimeouts s)"
  by (simp add: clearReverseTimeouts_def intact_drop intact_clearTimeouts intact_handles)

lemma intact_cancelSlide12Split: "intact g s \<Longrightarrow> intact g (cancelSlide12Split s)"
  by (simp add: cancelSlide12Split_def intact_clearSplitTimeouts intact_clearReverseTimeouts)

lemma intact_animateSlide12Expansion: "intact g s \<Longrightarrow> intact g (animateSlide12Expansion s)"
  by (simp add: animateSlide12Expansion_def Let_def intact_push intact_cancelSlide12Expansion)

lemma intact_scheduleSegments:
  "intact g s \<Longrightarrow> intact g (snd (scheduleSegments segs i d s))"
  by (induction segs i d s rule: scheduleSegments.induct) (simp_all add: intact_pushTimeline)

lemma intact_animateTimelineStepByStep:
  "intact g s \<Longrightarrow> intact g (animateTimelineStepByStep c s)"
  by (simp add: animateTimelineStepByStep_def Let_def split_beta intact_pushTimeline
      intact_scheduleSegments intact_cancelTimelineAnimation)

lemma intact_updatePath: "intact g s \<Longrightarrow> intact g (updatePath c i a s)"
  by (simp add: updatePath_def Let_def intact_cancelTimelineAnimation
      intact_animateTimelineStepByStep intact_animateSlide12Expansion
      intact_cancelSlide12Split split: option.splits)

lemma intact_revealTimers: "intact g s \<Longrightarrow> intact g (revealTimers c sl i ds s)"
  by (induction ds arbitrary: i s) (simp_all add: intact_setTimeout)

lemma intact_triggerSlideAnimations: "intact g s \<Longrightarrow> intact g (triggerSlideAnimations c sl s)"
  by (simp add: triggerSlideAnimations_def intact_revealTimers)

lemma intact_afterSlideChange: "intact g s \<Longrightarrow> intact g (afterSlideChange c i b s)"
  by (simp add: afterSlideChange_def Let_def intact_triggerSlideAnimations)


lemma intact_newPromise:
  assumes "intact g s"
  shows "intact g (s\<lparr>nextPromise := Suc (nextPromise s),
                      promises := promises s @ [(nextPromise s, i)]\<rparr>)"
proof -
  have mp: "okP g (nextPromise s) q \<Longrightarrow> okP g (Suc (nextPromise s)) q" for q
    by (erule okP_mono) simp
  have ma: "okAct g (nextId s) (nextPromise s) x \<Longrightarrow>
      okAct g (nextId s) (Suc (nextPromise s)) x" for x
    by (erule okAct_mono) simp_all
  have n: "okP g (Suc (nextPromise s)) (nextPromise s)"
    using assms by (simp add: okP_def intact_def)
  show ?thesis
    using assms mp ma n unfolding intact_def
    by (auto simp del: okAct.simps)
qed

lemma transition_eq:
  "transition c a b i s =
     setTimeout (TransEnd (nextPromise s) (nextId s) a) (duration c)
       (setTimeout (Safety (nextPromise s)) (duration c + 500)
          (setHidden b False
             (s\<lparr>nextPromise := Suc (nextPromise s),
                 promises := promises s @ [(nextPromise s, i)]\<rparr>)))"
  by (simp add: transition_def setTimeout_def setHidden_def Let_def)

lemma intact_transition:
  assumes "intact g s"
  shows "intact g (transition c a b i s)"
proof -
  let ?s1 = "setHidden b False (s\<lparr>nextPromise := Suc (nextPromise s),
                 promises := promises s @ [(nextPromise s, i)]\<rparr>)"
  let ?s2 = "setTimeout (Safety (nextPromise s)) (duration c + 500) ?s1"
  have i1: "intact g ?s1" using assms by (simp add: intact_newPromise)
  have f1: "nextPromise ?s1 = Suc (nextPromise s)" "nextId ?s1 = nextId s"
    by (simp_all add: setHidden_def)
  have p: "okP g (Suc (nextPromise s)) (nextPromise s)"
    using assms by (simp add: okP_def intact_def)
  have i2: "intact g ?s2"
    by (rule intact_setTimeout [OF i1]) (simp add: f1 p)
  have f2: "nextPromise ?s2 = Suc (nextPromise s)" "nextId ?s2 = Suc (nextId s)"
    by (simp_all add: setHidden_def setTimeout_def)
  have h: "okH g (Suc (Suc (nextId s))) (nextId s)"
    using assms by (simp add: okH_def intact_def)
  have "intact g (setTimeout (TransEnd (nextPromise s) (nextId s) a) (duration c) ?s2)"
    by (rule intact_setTimeout [OF i2]) (simp add: f2 p h)
  then show ?thesis by (simp add: transition_eq)
qed

lemma intact_resolve:
  assumes "intact g s" "okP g (nextPromise s) q"
  shows "intact g (resolve c q s)"
proof (cases "map_of (promises s) q")
  case None
  then show ?thesis using assms by (simp add: resolve_def)
next
  case (Some index)
  have "intact g (s\<lparr>promises := filter (\<lambda>e. fst e \<noteq> q) (promises s)\<rparr>)"
    using assms kept_promise [OF assms(1), of _ "nextPromise s"]
    unfolding intact_def by auto
  then show ?thesis
    using Some by (simp add: resolve_def intact_afterSlideChange)
qed

lemma intact_onComplete: "intact g s \<Longrightarrow> intact g (onComplete c a b i s)"
  by (simp add: onComplete_def intact_transition intact_triggerSlideAnimations)

lemma intact_onSlideReady: "intact g s \<Longrightarrow> intact g (onSlideReady c a b i s)"
  by (simp add: onSlideReady_def intact_transition)

lemma intact_onContentReady: "intact g s \<Longrightarrow> intact g (onContentReady c n s)"
  by (simp add: onContentReady_def intact_triggerSlideAnimations)

lemma intact_animateSlide10To11Swoop:
  "intact g s \<Longrightarrow> intact g (animateSlide10To11Swoop c a b i s)"
  by (simp add: animateSlide10To11Swoop_def Let_def intact_push10To11
      intact_cancelSlide10To11Swoop)

lemma intact_animateSlide12To11Reverse:
  "intact g s \<Longrightarrow> intact g (animateSlide12To11Reverse a b i s)"
  by (simp add: animateSlide12To11Reverse_def Let_def intact_pushReverse
      intact_clearSplitTimeouts intact_clearReverseTimeouts intact_cancelSlide12Expansion)

lemma intact_animateSlide11To12Split:
  "intact g s \<Longrightarrow> intact g (animateSlide11To12Split c a b i s)"
  by (simp add: animateSlide11To12Split_def Let_def intact_pushSplit intact_onSlideReady
      intact_onContentReady intact_cancelSlide12Expansion intact_cancelSlide12Split
      intact_cancelSlide10To11Swoop)

lemma intact_continueSlide12SplitAnimation:
  "intact g s \<Longrightarrow> intact g (continueSlide12SplitAnimation s)"
  by (simp add: continueSlide12SplitAnimation_def intact_pushSplit)

lemma intact_animateSwoopTransition: "intact g s \<Longrightarrow> intact g (animateSwoopTransition a b i s)"
  by (simp add: animateSwoopTransition_def Let_def intact_setTimeout)

lemma intact_animateReverseSwoopTransition:
  "intact g s \<Longrightarrow> intact g (animateReverseSwoopTransition a b i s)"
  by (simp add: animateReverseSwoopTransition_def Let_def intact_setTimeout)

lemma intact_handleResize: "intact g s \<Longrightarrow> intact g (handleResize s)"
proof (cases "resizeTimeout s")
  case None
  assume "intact g s"
  then show ?thesis using None by (simp add: handleResize_def Let_def intact_push)
next
  case (Some h)
  assume i: "intact g s"
  then have "intact g (clearTimeout h s)"
    using Some by (simp add: intact_clearTimeout intact_handles)
  from intact_push(6) [OF this, of ResizeDone 200] show ?thesis
    using Some by (simp add: handleResize_def Let_def)
qed

lemma intact_cancelInFlight: "intact g s \<Longrightarrow> intact g (cancelInFlight index s)"
proof -
  assume i: "intact g s"
  have h: "intact g (s'\<lparr>hidden := map f (enumerate 0 (hidden s'))\<rparr>)" if "intact g s'" for s' f
    using that unfolding intact_def by auto
  show ?thesis
    using i
    by (simp add: cancelInFlight_def Let_def h intact_cancelSlide12Expansion
        intact_cancelSlide12Split intact_cancelSlide10To11Swoop intact_cancelTimelineAnimation)
qed

lemma intact_leaveSlide: "intact g s \<Longrightarrow> intact g (leaveSlide index s)"
  by (simp add: leaveSlide_def Let_def resetSlideAnimations_def intact_cancelSlide12Expansion
      intact_cancelSlide12Split)

lemma intact_splitBranch: "intact g s \<Longrightarrow> intact g (splitBranch c a i s)"
  by (simp add: splitBranch_def Let_def intact_animateSlide11To12Split
      intact_cancelSlide12Expansion intact_cancelSlide12Split intact_cancelSlide10To11Swoop
      intact_cancelTimelineAnimation)

lemma intact_genericBranch: "intact g s \<Longrightarrow> intact g (genericBranch c a i b s)"
  by (simp add: genericBranch_def Let_def intact_transition intact_triggerSlideAnimations
      intact_updatePath intact_afterSlideChange)

lemma intact_navigate: "intact g s \<Longrightarrow> intact g (navigate c i b s)"
  by (simp add: navigate_def Let_def intact_genericBranch intact_splitBranch
      intact_leaveSlide intact_animateSlide12To11Reverse intact_clearSplitTimeouts
      intact_animateSlide10To11Swoop intact_cancelTimelineAnimation
      intact_animateReverseSwoopTransition intact_animateSwoopTransition
      intact_afterSlideChange intact_updatePath)

lemma intact_goToSlide: "intact g s \<Longrightarrow> intact g (goToSlide c index animate s)"
  by (simp add: goToSlide_def Let_def intact_navigate intact_cancelInFlight)

lemma intact_runAction:
  assumes "intact g s" "okAct g (nextId s) (nextPromise s) a"
  shows "intact g (runAction c a s)"
proof (cases a)
  case (TransEnd q h f)
  let ?s1 = "setHidden f True (clearTimeout h s)"
  have i1: "intact g ?s1"
    using assms TransEnd by (simp add: intact_clearTimeout)
  have np: "nextPromise ?s1 = nextPromise s"
    by (simp add: setHidden_def clearTimeout_def)
  show ?thesis
    using intact_resolve [OF i1, of q c] assms(2) TransEnd np by simp
next
  case ResizeDone
  then show ?thesis
    using assms by (simp add: Let_def intact_cancelTimelineAnimation intact_updatePath)
qed (use assms in \<open>simp_all add: intact_resolve intact_onComplete intact_drop
      intact_continueSlide12SplitAnimation intact_onContentReady split: option.splits\<close>)

lemma ok_clock [simp]:
  "okH (g\<lparr>clock := T\<rparr>) n h = okH g n h"
  "okP (g\<lparr>clock := T\<rparr>) m q = okP g m q"
  by (simp_all add: okH_def okP_def)

lemma okAct_clock [simp]: "okAct (g\<lparr>clock := T\<rparr>) n m a = okAct g n m a"
  by (cases a) simp_all

lemma intact_clock: "intact g s \<Longrightarrow> intact (g\<lparr>clock := T\<rparr>) (s\<lparr>now := T\<rparr>)"
  unfolding intact_def by simp

lemma intact_removed:
  assumes "intact g s" "t \<in> set (timers s)" "t \<notin> set (keepT g)"
  shows "intact g (s\<lparr>timers := filter (\<lambda>u. tid u \<noteq> tid t) (timers s)\<rparr>)"
proof -
  have "okH g (nextId s) (tid t)"
    using assms unfolding intact_def by auto
  then have "tid x \<noteq> tid t" if "x \<in> set (keepT g)" for x
    using kept_not_ok [OF assms(1) that, of "nextId s"] by auto
  then show ?thesis
    using assms(1) unfolding intact_def by auto
qed

lemma intact_okAct:
  "intact g s \<Longrightarrow> t \<in> set (timers s) \<Longrightarrow> t \<notin> set (keepT g) \<Longrightarrow>
   okAct g (nextId s) (nextPromise s) (act t)"
  unfolding intact_def by auto

lemma intact_fire:
  assumes "intact g s" "t \<in> set (timers s)" "t \<notin> set (keepT g)"
  shows "intact (g\<lparr>clock := max (now s) (due t)\<rparr>) (fire c t s)"
proof -
  let ?T = "max (now s) (due t)"
  let ?s1 = "s\<lparr>timers := filter (\<lambda>u. tid u \<noteq> tid t) (timers s), now := ?T\<rparr>"
  have i: "intact (g\<lparr>clock := ?T\<rparr>) ?s1"
    using intact_clock [OF intact_removed [OF assms], of ?T] by simp
  have a: "okAct (g\<lparr>clock := ?T\<rparr>) (nextId ?s1) (nextPromise ?s1) (act t)"
    using intact_okAct [OF assms] by simp
  show ?thesis
    unfolding fire_def by (rule intact_runAction [OF i a])
qed

lemma intact_passTime: "intact g s \<Longrightarrow> intact (g\<lparr>clock := max (now s) T\<rparr>) (passTime T s)"
  by (simp add: passTime_def intact_clock)

lemma nothingKept_clock [simp]: "(nothingKept N T)\<lparr>clock := T'\<rparr> = nothingKept N T'"
  by (simp add: nothingKept_def)

lemma wellFormedI: "intact (nothingKept N T) s \<Longrightarrow> wellFormed s"
proof -
  assume i: "intact (nothingKept N T) s"
  then have "N = length (hidden s)" "T = now s"
    by (simp_all add: intact_def nothingKept_def)
  with i show ?thesis by (simp add: wellFormed_def)
qed

lemma wellFormedD: "wellFormed s \<Longrightarrow> intact (nothingKept (length (hidden s)) (now s)) s"
  by (simp add: wellFormed_def)

lemma wellFormed_initial: "wellFormed (initial c)"
  by (simp add: wellFormed_def intact_def initial_def nothingKept_def)

lemma wellFormed_goToSlide: "wellFormed s \<Longrightarrow> wellFormed (goToSlide c index animate s)"
  by (rule wellFormedI) (rule intact_goToSlide, erule wellFormedD)

lemma wellFormed_boot: "wellFormed (boot c)"
proof -
  have "wellFormed (engineInit c)"
    by (simp add: engineInit_def Let_def wellFormed_initial wellFormed_goToSlide)
  then have "intact (nothingKept (length (hidden (engineInit c))) (now (engineInit c)))
      ((engineInit c)\<lparr>lineAnimator := True\<rparr>)"
    by (simp add: wellFormed_def)
  then show ?thesis
    unfolding boot_def by (intro wellFormedI intact_updatePath)
qed

lemma reachable_wellFormed: "reachable c s \<Longrightarrow> wellFormed s"
proof (induction rule: reachable.induct)
  case start
  show ?case by (rule wellFormed_boot)
next
  case (call s index animate)
  then show ?case by (simp add: wellFormed_goToSlide)
next
  case (timer s t)
  have "t \<in> set (timers s)" using timer.hyps(2) by (rule earliest_mem)
  then have "intact (nothingKept (length (hidden s)) (max (now s) (due t))) (fire c t s)"
    using intact_fire [OF wellFormedD [OF timer.IH], of t c] by (simp add: nothingKept_def)
  then show ?case by (rule wellFormedI)
next
  case (wait s T)
  have "intact (nothingKept (length (hidden s)) (max (now s) T)) (passTime T s)"
    using intact_passTime [OF wellFormedD [OF wait.IH], of T] by simp
  then show ?case by (rule wellFormedI)
next
  case (resize s)
  show ?case by (rule wellFormedI) (rule intact_handleResize, rule wellFormedD, rule resize.IH)
qed

lemma flightScope_clock [simp]: "(flightScope P S e N T)\<lparr>clock := T'\<rparr> = flightScope P S e N T'"
  by (simp add: flightScope_def)

lemma cancelInFlight_view:
  "currentSlide (cancelInFlight k s) = currentSlide s"
  "lineAnimator (cancelInFlight k s) = lineAnimator s"
  "length (hidden (cancelInFlight k s)) = length (hidden s)"
  "\<not> isTransitioning (cancelInFlight k s)"
  "now (cancelInFlight k s) = now s"
  "nextPromise (cancelInFlight k s) = nextPromise s"
proof -
  let ?s1 = "cancelSlide12Expansion
               (cancelSlide12Split (cancelSlide10To11Swoop (cancelTimelineAnimation s)))"
  have "engineView ?s1 = engineView s" by simp
  then have v: "currentSlide ?s1 = currentSlide s" "lineAnimator ?s1 = lineAnimator s"
    "hidden ?s1 = hidden s" "now ?s1 = now s" "nextPromise ?s1 = nextPromise s"
    by (simp_all add: engineView_def)
  show "currentSlide (cancelInFlight k s) = currentSlide s"
    "lineAnimator (cancelInFlight k s) = lineAnimator s"
    "length (hidden (cancelInFlight k s)) = length (hidden s)"
    "\<not> isTransitioning (cancelInFlight k s)"
    "now (cancelInFlight k s) = now s"
    "nextPromise (cancelInFlight k s) = nextPromise s"
    using v by (simp_all add: cancelInFlight_def Let_def)
qed

lemma goToSlide_request:
  assumes "i < length (hidden s)" "i \<noteq> currentSlide s"
    "transType c \<noteq> NoneT" "lineAnimator s \<longrightarrow> \<not> specialPair (currentSlide s) i"
  shows "goToSlide c (int i) True s =
           (transition c (currentSlide s) i i (beforeTransition c i s))\<lparr>currentSlide := i\<rparr>"
proof (cases "isTransitioning s")
  case False
  then show ?thesis
    using goToSlide_generic [OF False assms] by (simp add: beforeTransition_def Let_def)
next
  case True
  let ?s0 = "cancelInFlight (int i) s"
  have g: "goToSlide c (int i) True s = goToSlide c (int i) True ?s0"
    using True assms(2) by (simp add: goToSlide_def Let_def cancelInFlight_view)
  have "goToSlide c (int i) True ?s0 =
           (transition c (currentSlide ?s0) i i
              (let s1 = (leaveSlide i ?s0)\<lparr>isTransitioning := True\<rparr>;
                   s2 = (if lineAnimator ?s0 then updatePath c i True s1 else s1)
               in if animationsEnabled c then triggerSlideAnimations c i s2 else s2))
           \<lparr>currentSlide := i\<rparr>"
    using assms by (intro goToSlide_generic) (simp_all add: cancelInFlight_view)
  then show ?thesis
    using True g by (simp add: beforeTransition_def Let_def cancelInFlight_view)
qed

lemma beforeTransition_view:
  "currentSlide (beforeTransition c i s) = currentSlide s"
  "length (hidden (beforeTransition c i s)) = length (hidden s)"
  "now (beforeTransition c i s) = now s"
  "nextPromise (beforeTransition c i s) = nextPromise s"
proof -
  let ?s0 = "if isTransitioning s then cancelInFlight (int i) s else s"
  let ?s1 = "(leaveSlide i ?s0)\<lparr>isTransitioning := True\<rparr>"
  have "engineView (beforeTransition c i s) = engineView ?s1"
    by (simp add: beforeTransition_def Let_def)
  moreover have "engineView ?s1 = engineView (?s0\<lparr>isTransitioning := True\<rparr>)"
    using engineView_leaveSlide [of i ?s0] by (simp add: engineView_def)
  ultimately have "engineView (beforeTransition c i s) = engineView (?s0\<lparr>isTransitioning := True\<rparr>)"
    by simp
  then have v: "currentSlide (beforeTransition c i s) = currentSlide ?s0"
    "hidden (beforeTransition c i s) = hidden ?s0"
    "now (beforeTransition c i s) = now ?s0"
    "nextPromise (beforeTransition c i s) = nextPromise ?s0"
    by (simp_all add: engineView_def)
  show "currentSlide (beforeTransition c i s) = currentSlide s"
    "length (hidden (beforeTransition c i s)) = length (hidden s)"
    "now (beforeTransition c i s) = now s"
    "nextPromise (beforeTransition c i s) = nextPromise s"
    using v by (simp_all add: cancelInFlight_view)
qed

lemma wellFormed_beforeTransition:
  assumes "wellFormed s"
  shows "intact (nothingKept (length (hidden s)) (now s)) (beforeTransition c i s)"
  using wellFormedD [OF assms]
  by (simp add: beforeTransition_def Let_def intact_triggerSlideAnimations intact_updatePath
      intact_leaveSlide intact_cancelInFlight)

lemma okH_old:
  "okH (nothingKept N T) n h \<Longrightarrow> tid S = n \<Longrightarrow> okH (flightScope P S e N' T') (Suc (Suc n)) h"
  by (auto simp: okH_def nothingKept_def flightScope_def)

lemma okP_old:
  "okP (nothingKept N T) m q \<Longrightarrow> fst e = m \<Longrightarrow> okP (flightScope P S e N' T') (Suc m) q"
  by (auto simp: okP_def nothingKept_def flightScope_def)

lemma okAct_old:
  "okAct (nothingKept N T) n m a \<Longrightarrow> tid S = n \<Longrightarrow> fst e = m \<Longrightarrow>
   okAct (flightScope P S e N' T') (Suc (Suc n)) (Suc m) a"
  by (cases a) (auto intro: okH_old okP_old)

lemma flight_start:
  assumes i3: "intact (nothingKept N T) s3" and d: "duration c + 500 < 2147483648"
  shows "intact
           (flightScope (Timer (Suc (nextId s3)) (now s3 + duration c)
                        (TransEnd (nextPromise s3) (nextId s3) fr))
                     (Timer (nextId s3) (now s3 + (duration c + 500)) (Safety (nextPromise s3)))
                     (nextPromise s3, i) N T)
           ((transition c fr i i s3)\<lparr>currentSlide := i\<rparr>)"
proof -
  let ?P = "Timer (Suc (nextId s3)) (now s3 + duration c) (TransEnd (nextPromise s3) (nextId s3) fr)"
  let ?S = "Timer (nextId s3) (now s3 + (duration c + 500)) (Safety (nextPromise s3))"
  let ?g = "flightScope ?P ?S (nextPromise s3, i) N T"
  have td: "timerDelay (duration c + 500) = duration c + 500" "timerDelay (duration c) = duration c"
    using d by (simp_all add: timerDelay_small)
  have h: "okH (nothingKept N T) (nextId s3) x \<Longrightarrow> okH ?g (Suc (Suc (nextId s3))) x" for x
    by (erule okH_old) simp
  have p: "okP (nothingKept N T) (nextPromise s3) x \<Longrightarrow> okP ?g (Suc (nextPromise s3)) x" for x
    by (erule okP_old) simp
  have a: "okAct (nothingKept N T) (nextId s3) (nextPromise s3) x \<Longrightarrow>
      okAct ?g (Suc (Suc (nextId s3))) (Suc (nextPromise s3)) x" for x
    by (erule okAct_old) simp_all
  have k: "keepT ?g = [?P, ?S]" "lo ?g = nextId s3" "hi ?g = Suc (Suc (nextId s3))"
    "keepP ?g = [(nextPromise s3, i)]" "plo ?g = nextPromise s3" "phi ?g = Suc (nextPromise s3)"
    "slides ?g = N" "clock ?g = T"
    by (simp_all add: flightScope_def)
  have o: "keepT (nothingKept N T) = []" "keepP (nothingKept N T) = []"
    "slides (nothingKept N T) = N" "clock (nothingKept N T) = T"
    by (simp_all add: nothingKept_def)
  show ?thesis
    using i3 h p a unfolding intact_def transition_def setTimeout_def setHidden_def Let_def td k o
    by (auto simp del: okAct.simps)
qed

lemma follows_intact:
  assumes "follows c P s0 u" "intact (flightScope P S e N T0) s0" "due P < due S" "T0 \<le> due P"
  shows "\<exists>T. intact (flightScope P S e N T) u \<and> T \<le> due P"
  using assms
proof (induction rule: follows.induct)
  case refl
  then show ?case by blast
next
  case (call u index animate)
  then obtain T where "intact (flightScope P S e N T) u" "T \<le> due P" by blast
  then show ?case using intact_goToSlide by blast
next
  case (timer u t)
  then obtain T where i: "intact (flightScope P S e N T) u" and T: "T \<le> due P" by blast
  have n: "now u = T" using i by (simp add: intact_def flightScope_def)
  have P: "P \<in> set (timers u)"
    using kept_pending [OF i, of P] by (simp add: flightScope_def)
  have m: "t \<in> set (timers u)" using timer.hyps(2) by (rule earliest_mem)
  have le: "due t \<le> due P" using timer.hyps(2) P by (rule earliest_least)
  then have "t \<noteq> S" using timer.prems(2) by auto
  then have k: "t \<notin> set (keepT (flightScope P S e N T))"
    using timer.hyps(3) by (simp add: flightScope_def)
  have "intact (flightScope P S e N (max (now u) (due t))) (fire c t u)"
    using intact_fire [OF i m k, of c] by simp
  moreover have "max (now u) (due t) \<le> due P" using n T le by simp
  ultimately show ?case by blast
next
  case (wait u T')
  then obtain T where i: "intact (flightScope P S e N T) u" and T: "T \<le> due P" by blast
  have n: "now u = T" using i by (simp add: intact_def flightScope_def)
  have P: "P \<in> set (timers u)"
    using kept_pending [OF i, of P] by (simp add: flightScope_def)
  then have "T' < due P" using wait.hyps(2) by blast
  moreover have "intact (flightScope P S e N (max (now u) T')) (passTime T' u)"
    using intact_passTime [OF i, of T'] by simp
  ultimately show ?case using n T by (intro exI [of _ "max (now u) T'"]) simp
next
  case (resize u)
  then obtain T where "intact (flightScope P S e N T) u" "T \<le> due P" by blast
  then show ?case using intact_handleResize by blast
qed

lemma map_of_only:
  "(p, i) \<in> set ps \<Longrightarrow> \<forall>e \<in> set ps. fst e = p \<longrightarrow> e = (p, i) \<Longrightarrow> map_of ps p = Some i"
  by (induction ps) auto

lemma flight_promise:
  assumes "intact (flightScope P S (p, i) N T) u"
  shows "map_of (promises u) p = Some i"
proof (rule map_of_only)
  show "(p, i) \<in> set (promises u)"
    using assms by (simp add: intact_def flightScope_def)
  show "\<forall>e \<in> set (promises u). fst e = p \<longrightarrow> e = (p, i)"
    using assms kept_promise [OF assms, of "(p, i)" "nextPromise u"]
    by (auto simp: intact_def flightScope_def)
qed

lemma flight_fire:
  assumes i: "intact (flightScope P S (p, i) N T) u"
    and P: "P = Timer (Suc sid) dP (TransEnd p sid fr)"
    and S: "S = Timer sid dS (Safety p)"
    and fr: "fr < N" and T: "T \<le> dP"
  shows "hidden (fire c P u) ! fr \<and> \<not> isTransitioning (fire c P u) \<and>
         currentSlide (fire c P u) = i \<and> events (fire c P u) = events u @ [i] \<and>
         S \<notin> set (timers (fire c P u)) \<and> P \<notin> set (timers (fire c P u)) \<and>
         now (fire c P u) = dP \<and> map_of (promises (fire c P u)) p = None"
proof -
  have n: "now u = T" "length (hidden u) = N"
    using i by (simp_all add: intact_def flightScope_def)
  have m: "map_of (promises u) p = Some i" using i by (rule flight_promise)
  have "map_of (filter (\<lambda>q. fst q \<noteq> p) ps) p = None" for ps :: "(nat \<times> nat) list"
    by (induction ps) auto
  then show ?thesis
    using n m fr T
    by (simp add: fire_def P S resolve_def afterSlideChange_def setHidden_def clearTimeout_def
        max_def)
qed

lemma foldr_max_ge: "x \<in> set xs \<Longrightarrow> f x \<le> foldr max (map f xs) (0::nat)"
  by (induction xs) auto

lemma maxReveal_ge: "sl < length (animDelays c) \<Longrightarrow> length (animDelays c ! sl) \<le> maxReveal c"
  unfolding maxReveal_def by (rule foldr_max_ge) simp

lemma load_fields [simp]:
  "load c (isTransitioning_update f1 s) = load c s"
  "load c (isAnimating_update f2 s) = load c s"
  "load c (currentSlide_update f3 s) = load c s"
  "load c (hidden_update f4 s) = load c s"
  "load c (animIn_update f5 s) = load c s"
  "load c (la_currentSlide_update f6 s) = load c s"
  "load c (onContentReadyCallback_update f7 s) = load c s"
  "load c (resizeTimeout_update f8 s) = load c s"
  "load c (pathD_update f9 s) = load c s"
  "load c (pathTransition_update f10 s) = load c s"
  "load c (now_update f11 s) = load c s"
  "load c (nextPromise_update f12 s) = load c s"
  "load c (promises_update f13 s) = load c s"
  "load c (events_update f14 s) = load c s"
  "load c (lineAnimator_update f15 s) = load c s"
  "load c (timelineTimeouts_update g1 s) = load c s"
  "load c (slide12ExpansionTimeout_update g2 s) = load c s"
  "load c (slide12SplitTimeouts_update g3 s) = load c s"
  "load c (slide12ReverseTimeouts_update g4 s) = load c s"
  "load c (slide10To11Timeouts_update g5 s) = load c s"
  "load c (nextId_update g6 s) = load c s"
  by (simp_all add: load_def)

lemma load_setPath [simp]: "load c (setPath p tr s) = load c s"
  by (simp add: setPath_def)

lemma load_setHidden [simp]: "load c (setHidden i b s) = load c s"
  by (simp add: setHidden_def)

lemma load_setTimeout [simp]: "load c (setTimeout a d s) = load c s + weight c a"
  by (simp add: load_def setTimeout_def)

lemma sum_filter_le: "sum_list (map f (filter Q xs)) \<le> sum_list (map f xs)" for f :: "'a \<Rightarrow> nat"
  by (induction xs) auto

lemma load_clearTimeout: "load c (clearTimeout h s) \<le> load c s"
  by (simp add: load_def clearTimeout_def sum_filter_le)

lemma load_clearTimeouts: "load c (clearTimeouts hs s) \<le> load c s"
  by (simp add: load_def clearTimeouts_def sum_filter_le)

lemma load_cancelTimelineAnimation: "load c (cancelTimelineAnimation s) \<le> load c s"
  by (simp add: cancelTimelineAnimation_def load_clearTimeouts)

lemma load_clearSplitTimeouts: "load c (clearSplitTimeouts s) \<le> load c s"
  by (simp add: clearSplitTimeouts_def load_clearTimeouts)

lemma load_clearReverseTimeouts: "load c (clearReverseTimeouts s) \<le> load c s"
  by (simp add: clearReverseTimeouts_def load_clearTimeouts)

lemma load_cancelSlide12Split: "load c (cancelSlide12Split s) \<le> load c s"
  using load_clearReverseTimeouts [of c "clearSplitTimeouts s"] load_clearSplitTimeouts [of c s]
  by (simp add: cancelSlide12Split_def)

lemma load_updatePath_still: "load c (updatePath c' i False s) \<le> load c s"
proof -
  have ct: "load c (cancelTimelineAnimation x) \<le> load c s" if "load c x \<le> load c s" for x
    using load_cancelTimelineAnimation [of c x] that by simp
  have cs: "load c (cancelSlide12Split x) \<le> load c s" if "load c x \<le> load c s" for x
    using load_cancelSlide12Split [of c x] that by simp
  show ?thesis
    by (auto simp add: updatePath_def Let_def intro!: ct cs split: option.splits)
qed

lemma load_revealTimers [simp]: "load c (revealTimers c sl i ds s) = load c s + length ds"
  by (induction ds arbitrary: i s) simp_all

lemma load_triggerSlideAnimations:
  "load c (triggerSlideAnimations c sl s) \<le> load c s + maxReveal c"
  by (simp add: triggerSlideAnimations_def maxReveal_ge)

lemma load_transition [simp]: "load c (transition c a b i s) = load c s + 2"
  by (simp add: transition_eq)

lemma load_resolve [simp]: "load c (resolve c q s) = load c s"
  by (simp add: resolve_def afterSlideChange_def split: option.splits)

lemma load_onComplete: "load c (onComplete c a b i s) \<le> load c s + maxReveal c + 2"
  using load_triggerSlideAnimations [of c b s] by (simp add: onComplete_def)

lemma load_onContentReady: "load c (onContentReady c n s) \<le> load c s + maxReveal c"
  using load_triggerSlideAnimations [of c n s] by (simp add: onContentReady_def)

lemma load_continueSlide12SplitAnimation [simp]:
  "load c (continueSlide12SplitAnimation s) = load c s + maxReveal c + 4"
  by (simp add: continueSlide12SplitAnimation_def pushSplit_def)

lemma load_runAction: "load c (runAction c a s) + 1 \<le> load c s + weight c a"
proof (cases a)
  case (TransEnd q h f)
  then show ?thesis using load_clearTimeout [of c h s] by simp
next
  case (SwoopOnComplete x y z)
  then show ?thesis using load_onComplete [of c x y z s] by simp
next
  case (RevSwoopOnComplete x y z)
  then show ?thesis using load_onComplete [of c x y z s] by simp
next
  case (S1011_t1 x y z)
  then show ?thesis using load_onComplete [of c x y z s] by simp
next
  case (Rev_r1 x y z)
  then show ?thesis using load_onComplete [of c x y z s] by simp
next
  case Split_t4
  then show ?thesis
    using load_onContentReady [of c _ s] by (auto split: option.splits)
next
  case ResizeDone
  have "load c (cancelTimelineAnimation s) \<le> load c s" by (rule load_cancelTimelineAnimation)
  moreover have "load c (updatePath c k False (cancelTimelineAnimation s))
      \<le> load c (cancelTimelineAnimation s)" for k
    by (rule load_updatePath_still)
  ultimately show ?thesis
    using ResizeDone by (auto simp: Let_def intro: order_trans)
qed simp_all

lemma sum_remove:
  "t \<in> set ts \<Longrightarrow>
   sum_list (map f (filter (\<lambda>u. tid u \<noteq> tid t) ts)) + f t \<le> sum_list (map f ts)"
  for f :: "timer \<Rightarrow> nat"
proof (induction ts)
  case Nil
  then show ?case by simp
next
  case (Cons a ts)
  show ?case
  proof (cases "a = t")
    case True
    then show ?thesis using sum_filter_le [of f "\<lambda>u. tid u \<noteq> tid t" ts] by simp
  next
    case False
    then have "t \<in> set ts" using Cons.prems by simp
    from Cons.IH [OF this] show ?thesis by simp
  qed
qed

lemma load_fire: "t \<in> set (timers s) \<Longrightarrow> load c (fire c t s) < load c s"
proof -
  assume m: "t \<in> set (timers s)"
  let ?s1 = "s\<lparr>timers := filter (\<lambda>u. tid u \<noteq> tid t) (timers s), now := max (now s) (due t)\<rparr>"
  have "load c ?s1 + weight c (act t) \<le> load c s"
    using sum_remove [OF m, of "\<lambda>t. weight c (act t)"] by (simp add: load_def)
  moreover have "load c (fire c t s) + 1 \<le> load c ?s1 + weight c (act t)"
    unfolding fire_def by (rule load_runAction)
  ultimately show ?thesis by simp
qed

lemma follows_trans: "follows c P b u \<Longrightarrow> follows c P a b \<Longrightarrow> follows c P a u"
  by (induction rule: follows.induct) (auto intro: follows.intros)

lemma flight_reaches:
  assumes "intact (flightScope P S e N T) s" "due P < due S" "load c s \<le> n"
  shows "\<exists>k u. steps c k s = Some u \<and> follows c P s u \<and> earliest (timers u) = Some P"
  using assms
proof (induction n arbitrary: s T)
  case 0
  have P: "P \<in> set (timers s)"
    using kept_pending [OF 0(1), of P] by (simp add: flightScope_def)
  then have "load c (fire c P s) < load c s" by (rule load_fire)
  then show ?case using 0(3) by simp
next
  case (Suc n)
  have P: "P \<in> set (timers s)"
    using kept_pending [OF Suc.prems(1), of P] by (simp add: flightScope_def)
  then obtain t where e: "earliest (timers s) = Some t"
    by (cases "earliest (timers s)") (auto simp: earliest_None)
  show ?case
  proof (cases "t = P")
    case True
    have "steps c 0 s = Some s" by simp
    then show ?thesis using e True follows.refl by blast
  next
    case False
    have m: "t \<in> set (timers s)" using e by (rule earliest_mem)
    have "due t \<le> due P" using e P by (rule earliest_least)
    then have "t \<noteq> S" using Suc.prems(2) by auto
    then have k: "t \<notin> set (keepT (flightScope P S e N T))"
      using False by (simp add: flightScope_def)
    have i: "intact (flightScope P S e N (max (now s) (due t))) (fire c t s)"
      using intact_fire [OF Suc.prems(1) m k, of c] by simp
    have "load c (fire c t s) \<le> n"
      using load_fire [OF m, of c] Suc.prems(3) by simp
    from Suc.IH [OF i Suc.prems(2) this]
    obtain k u where s: "steps c k (fire c t s) = Some u"
      and f: "follows c P (fire c t s) u" and l: "earliest (timers u) = Some P"
      by blast
    have "steps c (Suc k) s = Some u" using e s by simp
    moreover have "follows c P s (fire c t s)"
      using follows.timer [OF follows.refl e False] .
    then have "follows c P s u" using f by (rule follows_trans [rotated])
    ultimately show ?thesis using l by blast
  qed
qed

text \<open>
  C2, amended. Take any well-formed state, as every state the page can reach is
  (\<open>reachable_wellFormed\<close>), and an animated \<open>goToSlide(i)\<close> that takes the generic
  branch, with \<open>duration + 500\<close> below \<open>2^31\<close>. The call clears the destination's hidden
  flag and sets the safety timer \<open>S\<close> at \<open>duration + 500\<close> and the completion timer \<open>P\<close>
  at \<open>duration\<close>. Whatever the page does next (calls of \<open>goToSlide\<close>, other timers,
  resize events), until \<open>P\<close> fires both timers stay pending, the clock cannot pass the
  request time plus \<open>duration\<close>, and \<open>S\<close> is never the next timer to fire. When \<open>P\<close>
  fires, at the request time plus \<open>duration\<close>, the source's hidden flag is set, the
  transition is resolved (the engine is idle on index \<open>i\<close>, \<open>slidechange\<close> is dispatched
  once with \<open>i\<close>) and \<open>S\<close> is cleared, so \<open>S\<close> never fires. Left alone, the timer loop
  reaches the firing of \<open>P\<close> after finitely many timers. The code has no completion hook
  of the effect other than \<open>P\<close>.
\<close>

theorem generic_transition_completes:
  assumes wf: "wellFormed s"
    and i: "i < length (hidden s)" and cur: "currentSlide s < length (hidden s)"
    and ne: "i \<noteq> currentSlide s"
    and ty: "transType c \<noteq> NoneT"
    and sp: "lineAnimator s \<longrightarrow> \<not> specialPair (currentSlide s) i"
    and d: "duration c + 500 < 2147483648"
  shows "let s0 = goToSlide c (int i) True s;
             p = nextPromise s;
             sid = nextId s0 - 2;
             S = Timer sid (now s + (duration c + 500)) (Safety p);
             P = Timer (Suc sid) (now s + duration c) (TransEnd p sid (currentSlide s))
         in \<not> hidden s0 ! i \<and>
            (\<forall>u. follows c P s0 u \<longrightarrow>
               P \<in> set (timers u) \<and> S \<in> set (timers u) \<and>
               now u \<le> now s + duration c \<and> earliest (timers u) \<noteq> Some S \<and>
               hidden (fire c P u) ! currentSlide s \<and> \<not> isTransitioning (fire c P u) \<and>
               currentSlide (fire c P u) = i \<and> events (fire c P u) = events u @ [i] \<and>
               S \<notin> set (timers (fire c P u)) \<and> now (fire c P u) = now s + duration c) \<and>
            (\<exists>k u. steps c k s0 = Some u \<and> follows c P s0 u \<and> earliest (timers u) = Some P)"
proof -
  define s3 where "s3 = beforeTransition c i s"
  define s0 where "s0 = goToSlide c (int i) True s"
  define S where "S = Timer (nextId s3) (now s + (duration c + 500)) (Safety (nextPromise s))"
  define P where "P = Timer (Suc (nextId s3)) (now s + duration c)
                        (TransEnd (nextPromise s) (nextId s3) (currentSlide s))"
  have v: "currentSlide s3 = currentSlide s" "length (hidden s3) = length (hidden s)"
    "now s3 = now s" "nextPromise s3 = nextPromise s"
    unfolding s3_def by (rule beforeTransition_view)+
  have g: "s0 = (transition c (currentSlide s) i i s3)\<lparr>currentSlide := i\<rparr>"
    unfolding s0_def s3_def using i ne ty sp by (rule goToSlide_request)
  have id: "nextId s0 - 2 = nextId s3"
    by (simp add: g transition_eq setTimeout_def setHidden_def)
  have vis: "\<not> hidden s0 ! i"
    using i v(2) by (simp add: g transition_eq setTimeout_def setHidden_def)
  have i3: "intact (nothingKept (length (hidden s)) (now s)) s3"
    unfolding s3_def using wf by (rule wellFormed_beforeTransition)
  have fl: "intact (flightScope P S (nextPromise s, i) (length (hidden s)) (now s)) s0"
    using flight_start [OF i3 d, of "currentSlide s" i] by (simp add: g P_def S_def v)
  have due: "due P < due S" "now s \<le> due P" "due P = now s + duration c"
    by (simp_all add: P_def S_def)
  have inv: "P \<in> set (timers u) \<and> S \<in> set (timers u) \<and>
      now u \<le> now s + duration c \<and> earliest (timers u) \<noteq> Some S \<and>
      hidden (fire c P u) ! currentSlide s \<and> \<not> isTransitioning (fire c P u) \<and>
      currentSlide (fire c P u) = i \<and> events (fire c P u) = events u @ [i] \<and>
      S \<notin> set (timers (fire c P u)) \<and> now (fire c P u) = now s + duration c"
    if f: "follows c P s0 u" for u
  proof -
    obtain T where iu: "intact (flightScope P S (nextPromise s, i) (length (hidden s)) T) u"
      and T: "T \<le> due P"
      using follows_intact [OF f fl due(1,2)] by blast
    have Pm: "P \<in> set (timers u)" and Sm: "S \<in> set (timers u)"
      using kept_pending [OF iu, of P] kept_pending [OF iu, of S] by (simp_all add: flightScope_def)
    have n: "now u = T" using iu by (simp add: intact_def flightScope_def)
    have "earliest (timers u) \<noteq> Some S"
    proof
      assume "earliest (timers u) = Some S"
      then have "due S \<le> due P" using Pm by (rule earliest_least)
      then show False using due(1) by simp
    qed
    moreover have "hidden (fire c P u) ! currentSlide s \<and> \<not> isTransitioning (fire c P u) \<and>
        currentSlide (fire c P u) = i \<and> events (fire c P u) = events u @ [i] \<and>
        S \<notin> set (timers (fire c P u)) \<and> P \<notin> set (timers (fire c P u)) \<and>
        now (fire c P u) = now s + duration c \<and> map_of (promises (fire c P u)) (nextPromise s) = None"
      using T by (intro flight_fire [OF iu P_def S_def cur]) (simp add: due(3))
    ultimately show ?thesis using Pm Sm n T due(3) by simp
  qed
  have live: "\<exists>k u. steps c k s0 = Some u \<and> follows c P s0 u \<and> earliest (timers u) = Some P"
    using flight_reaches [OF fl due(1) order_refl] .
  show ?thesis
    unfolding Let_def s0_def [symmetric] id
    using vis inv live unfolding P_def S_def by blast
qed


lemma duringNext_facts:
  "wellFormed duringNext" "0 < length (hidden duringNext)"
  "currentSlide duringNext < length (hidden duringNext)" "0 \<noteq> currentSlide duringNext"
  "isTransitioning duringNext" "currentSlide duringNext = 1" "lineAnimator duringNext"
  "now duringNext = 400" "nextPromise duringNext = 1"
  "nextId (goToSlide app 0 True duringNext) = 11"
  unfolding duringNext_def by code_simp+



theorem generic_transition_completes_witness:
  "wellFormed duringNext \<and> isTransitioning duringNext \<and> currentSlide duringNext = 1 \<and>
   0 < length (hidden duringNext) \<and> transType app \<noteq> NoneT \<and> \<not> specialPair 1 0 \<and>
   duration app + 500 < 2147483648 \<and>
   \<not> hidden (goToSlide app 0 True duringNext) ! 0 \<and>
   Timer 10 800 (TransEnd 1 9 1) \<in> set (timers (goToSlide app 0 True duringNext)) \<and>
   Timer 9 1300 (Safety 1) \<in> set (timers (goToSlide app 0 True duringNext)) \<and>
   earliest (timers (goToSlide app 0 True duringNext)) \<noteq> Some (Timer 9 1300 (Safety 1)) \<and>
   (\<exists>k u. steps app k (goToSlide app 0 True duringNext) = Some u \<and>
      follows app (Timer 10 800 (TransEnd 1 9 1)) (goToSlide app 0 True duringNext) u \<and>
      earliest (timers u) = Some (Timer 10 800 (TransEnd 1 9 1)) \<and>
      now u \<le> 800 \<and> Timer 9 1300 (Safety 1) \<in> set (timers u) \<and>
      hidden (fire app (Timer 10 800 (TransEnd 1 9 1)) u) ! 1 \<and>
      \<not> isTransitioning (fire app (Timer 10 800 (TransEnd 1 9 1)) u) \<and>
      currentSlide (fire app (Timer 10 800 (TransEnd 1 9 1)) u) = 0 \<and>
      events (fire app (Timer 10 800 (TransEnd 1 9 1)) u) = events u @ [0] \<and>
      Timer 9 1300 (Safety 1) \<notin> set (timers (fire app (Timer 10 800 (TransEnd 1 9 1)) u)) \<and>
      now (fire app (Timer 10 800 (TransEnd 1 9 1)) u) = 800)"
proof -
  define s0 where "s0 = goToSlide app 0 True duringNext"
  define P where "P = Timer 10 800 (TransEnd 1 9 1)"
  define S where "S = Timer 9 1300 (Safety 1)"
  have a: "transType app \<noteq> NoneT" "duration app = 400" by (simp_all add: app_def)
  have b: "\<not> specialPair 1 0" by (simp add: specialPair_def)
  have sp: "lineAnimator duringNext \<longrightarrow> \<not> specialPair (currentSlide duringNext) 0"
    using b duringNext_facts(6) by simp
  have d: "duration app + 500 < 2147483648" using a(2) by simp
  have T: "\<not> hidden s0 ! 0 \<and>
      (\<forall>u. follows app P s0 u \<longrightarrow>
         P \<in> set (timers u) \<and> S \<in> set (timers u) \<and> now u \<le> 800 \<and>
         earliest (timers u) \<noteq> Some S \<and>
         hidden (fire app P u) ! 1 \<and> \<not> isTransitioning (fire app P u) \<and>
         currentSlide (fire app P u) = 0 \<and> events (fire app P u) = events u @ [0] \<and>
         S \<notin> set (timers (fire app P u)) \<and> now (fire app P u) = 800) \<and>
      (\<exists>k u. steps app k s0 = Some u \<and> follows app P s0 u \<and> earliest (timers u) = Some P)"
    using generic_transition_completes
      [OF duringNext_facts(1,2,3,4) a(1) sp d]
    by (simp add: Let_def duringNext_facts(6,8,9,10) a(2) s0_def P_def S_def)
  then have all: "follows app P s0 u \<Longrightarrow>
         P \<in> set (timers u) \<and> S \<in> set (timers u) \<and> now u \<le> 800 \<and>
         earliest (timers u) \<noteq> Some S \<and>
         hidden (fire app P u) ! 1 \<and> \<not> isTransitioning (fire app P u) \<and>
         currentSlide (fire app P u) = 0 \<and> events (fire app P u) = events u @ [0] \<and>
         S \<notin> set (timers (fire app P u)) \<and> now (fire app P u) = 800" for u
    by simp
  have 0: "P \<in> set (timers s0)" "S \<in> set (timers s0)" "earliest (timers s0) \<noteq> Some S"
    using all [OF follows.refl] by simp_all
  obtain k u where ku: "steps app k s0 = Some u" "follows app P s0 u"
    "earliest (timers u) = Some P"
    using T by blast
  have "\<exists>k u. steps app k s0 = Some u \<and> follows app P s0 u \<and> earliest (timers u) = Some P \<and>
      now u \<le> 800 \<and> S \<in> set (timers u) \<and> hidden (fire app P u) ! 1 \<and>
      \<not> isTransitioning (fire app P u) \<and> currentSlide (fire app P u) = 0 \<and>
      events (fire app P u) = events u @ [0] \<and> S \<notin> set (timers (fire app P u)) \<and>
      now (fire app P u) = 800"
    using ku all [OF ku(2)] by (intro exI [of _ k] exI [of _ u]) simp
  then show ?thesis
    using duringNext_facts(1,2,5,6) a(1) b d T 0
    unfolding s0_def P_def S_def by (simp only: simp_thms)
qed

text \<open>
  What the call does not ensure is that the destination stays visible. On the settled
  first slide, \<open>next()\<close> and 100 ms later \<open>prev()\<close>: right after the second request,
  a generic transition of 400 ms from slide 1 to slide 0, both slides are visible.
  \<open>goToSlide\<close> says "cancel current transition and proceed", but the two timers of the
  first transition stay pending. 300 ms after the second request the completion timer of
  the first transition fires: it hides slide 0, the destination of the second, and
  resolves the first promise, which leaves the engine idle on index 1 while the second
  transition is in flight. At \<open>duration + 500\<close> after the second request source and
  destination are both hidden, as in \<open>nextThenPrev\<close>.
\<close>

lemma interrupted_transition_hides_destination:
  "map_option (\<lambda>s. (now s, isTransitioning s, currentSlide s, hidden s ! 0, hidden s ! 1))
     prevDuringNext = Some (400, True, 0, False, False) \<and>
   map_option (\<lambda>s. (now s, isTransitioning s, currentSlide s, hidden s ! 0, hidden s ! 1))
     (Option.bind prevDuringNext (\<lambda>s. advance app (now s + 300) 100 s))
     = Some (700, False, 1, True, False) \<and>
   map_option (\<lambda>s. (now s, isTransitioning s, currentSlide s, hidden s ! 0, hidden s ! 1))
     (Option.bind prevDuringNext (\<lambda>s. advance app (now s + (duration app + 500)) 100 s))
     = Some (1300, False, 0, True, True)"
  unfolding prevDuringNext_def by code_simp

end
